theory Spec2Isabelle
  imports Main "HOL-Library.Sublist" "HOL-Library.AList"
begin

section \<open>ECMAScript primitives used by the services\<close>

text \<open>
  A JavaScript string is modelled as a \<^typ>\<open>string\<close>: one \<^typ>\<open>char\<close> per code unit, for
  code units below 256. The functions of this section are the built-ins the two services
  call (\<^verbatim>\<open>String.prototype.trim\<close>, \<^verbatim>\<open>parseFloat\<close>, \<^verbatim>\<open>isNaN\<close>,
  \<^verbatim>\<open>toLowerCase\<close>, \<^verbatim>\<open>includes\<close>, \<^verbatim>\<open>join\<close>, number-to-string), written after
  ECMA-262.
\<close>

definition isWhiteSpace :: "char \<Rightarrow> bool" where
  \<comment> \<open>WhiteSpace and LineTerminator code points below 256: TAB, LF, VT, FF, CR, SP, NBSP.\<close>
  "isWhiteSpace c =
     (c \<in> set [CHR 0x09, CHR 0x0A, CHR 0x0B, CHR 0x0C, CHR 0x0D, CHR 0x20, CHR 0xA0])"

definition trim :: "string \<Rightarrow> string" where
  "trim s = rev (dropWhile isWhiteSpace (rev (dropWhile isWhiteSpace s)))"

definition isDigit :: "char \<Rightarrow> bool" where
  "isDigit c = (c \<in> set ''0123456789'')"

definition digitValue :: "char \<Rightarrow> nat" where
  "digitValue c = of_char c - 48"

definition decimalValue :: "string \<Rightarrow> nat" where
  "decimalValue ds = foldl (\<lambda>n c. 10 * n + digitValue c) 0 ds"

text \<open>
  The result of \<^verbatim>\<open>parseFloat\<close>. A parsed literal is kept as its exact decimal value
  \<open>\<plusminus> m * 10 ^ e\<close>; the Number it denotes is that value rounded to the nearest double.
  The validator only asks whether the Number is NaN and whether it is \<open>\<le> 0\<close>, and both
  questions are answered exactly from the decimal value (\<open>numLeZero\<close> below).
\<close>

datatype jsnumber = NaN | Infinite bool | Decimal bool nat int

definition takeSign :: "string \<Rightarrow> bool \<times> string" where
  "takeSign s =
     (case s of
        [] \<Rightarrow> (False, [])
      | c # r \<Rightarrow>
          if c = CHR ''-'' then (True, r)
          else if c = CHR ''+'' then (False, r)
          else (False, s))"

definition exponentPart :: "string \<Rightarrow> int" where
  \<comment> \<open>ExponentPart: \<open>e\<close> or \<open>E\<close>, an optional sign, at least one digit; otherwise it is
      not part of the longest literal prefix.\<close>
  "exponentPart r =
     (case r of
        [] \<Rightarrow> 0
      | c # r1 \<Rightarrow>
          if c = CHR ''e'' \<or> c = CHR ''E'' then
            (case takeSign r1 of
               (neg, r2) \<Rightarrow>
                 if takeWhile isDigit r2 = [] then 0
                 else if neg then - int (decimalValue (takeWhile isDigit r2))
                 else int (decimalValue (takeWhile isDigit r2)))
          else 0)"

definition parseFloat :: "string \<Rightarrow> jsnumber" where
  \<comment> \<open>Leading white space is skipped; the longest prefix that is a StrDecimalLiteral is
      read; no such prefix gives NaN.\<close>
  "parseFloat input =
     (case takeSign (dropWhile isWhiteSpace input) of
        (neg, r) \<Rightarrow>
          if prefix ''Infinity'' r then Infinite neg
          else
            (let ip = takeWhile isDigit r;
                 r1 = dropWhile isDigit r;
                 fp = (case r1 of [] \<Rightarrow> []
                       | c # r2 \<Rightarrow> if c = CHR ''.'' then takeWhile isDigit r2 else []);
                 r3 = (case r1 of [] \<Rightarrow> []
                       | c # r2 \<Rightarrow> if c = CHR ''.'' then dropWhile isDigit r2 else r1)
             in if ip = [] \<and> fp = [] then NaN
                else Decimal neg (decimalValue (ip @ fp)) (exponentPart r3 - int (length fp))))"

definition parseFloatOf :: "string option \<Rightarrow> jsnumber" where
  \<comment> \<open>\<^verbatim>\<open>parseFloat(undefined)\<close> reads the string "undefined": NaN.\<close>
  "parseFloatOf v = (case v of None \<Rightarrow> NaN | Some s \<Rightarrow> parseFloat s)"

definition isNaN :: "jsnumber \<Rightarrow> bool" where
  "isNaN x = (x = NaN)"

definition roundsToZero :: "nat \<Rightarrow> int \<Rightarrow> bool" where
  \<comment> \<open>\<open>m * 10 ^ e\<close> rounds to the double 0: it is at most \<open>2 ^ -1075\<close>, half of the
      least positive double (the tie goes to the even significand, 0).\<close>
  "roundsToZero m e = (m = 0 \<or> (e < 0 \<and> m * 2 ^ 1075 \<le> 10 ^ nat (- e)))"

definition numLeZero :: "jsnumber \<Rightarrow> bool" where
  \<comment> \<open>\<^verbatim>\<open>x <= 0\<close>: false for NaN, true for \<open>-0\<close> and \<open>+0\<close>.\<close>
  "numLeZero x =
     (case x of
        NaN \<Rightarrow> False
      | Infinite neg \<Rightarrow> neg
      | Decimal neg m e \<Rightarrow> neg \<or> roundsToZero m e)"

definition numGtZero :: "jsnumber \<Rightarrow> bool" where
  \<comment> \<open>\<^verbatim>\<open>x > 0\<close>: a Number that is not NaN and strictly positive.\<close>
  "numGtZero x =
     (case x of
        NaN \<Rightarrow> False
      | Infinite neg \<Rightarrow> \<not> neg
      | Decimal neg m e \<Rightarrow> \<not> neg \<and> \<not> roundsToZero m e)"

definition upperCaseLetters :: "string" where
  \<comment> \<open>A-Z and the upper-case letters of U+00C0..U+00DE (all but U+00D7).\<close>
  "upperCaseLetters =
     ''ABCDEFGHIJKLMNOPQRSTUVWXYZ'' @
       [CHR 0xC0, CHR 0xC1, CHR 0xC2, CHR 0xC3, CHR 0xC4, CHR 0xC5, CHR 0xC6, CHR 0xC7,
        CHR 0xC8, CHR 0xC9, CHR 0xCA, CHR 0xCB, CHR 0xCC, CHR 0xCD, CHR 0xCE, CHR 0xCF,
        CHR 0xD0, CHR 0xD1, CHR 0xD2, CHR 0xD3, CHR 0xD4, CHR 0xD5, CHR 0xD6, CHR 0xD8,
        CHR 0xD9, CHR 0xDA, CHR 0xDB, CHR 0xDC, CHR 0xDD, CHR 0xDE]"

definition lowerCaseLetters :: "string" where
  \<comment> \<open>Their lower-case forms, 32 code points up, in the same order.\<close>
  "lowerCaseLetters =
     ''abcdefghijklmnopqrstuvwxyz'' @
       [CHR 0xE0, CHR 0xE1, CHR 0xE2, CHR 0xE3, CHR 0xE4, CHR 0xE5, CHR 0xE6, CHR 0xE7,
        CHR 0xE8, CHR 0xE9, CHR 0xEA, CHR 0xEB, CHR 0xEC, CHR 0xED, CHR 0xEE, CHR 0xEF,
        CHR 0xF0, CHR 0xF1, CHR 0xF2, CHR 0xF3, CHR 0xF4, CHR 0xF5, CHR 0xF6, CHR 0xF8,
        CHR 0xF9, CHR 0xFA, CHR 0xFB, CHR 0xFC, CHR 0xFD, CHR 0xFE]"

definition toLowerChar :: "char \<Rightarrow> char" where
  "toLowerChar c =
     (case map_of (zip upperCaseLetters lowerCaseLetters) c of None \<Rightarrow> c | Some l \<Rightarrow> l)"

definition toLowerCase :: "string \<Rightarrow> string" where
  "toLowerCase s = map toLowerChar s"

fun includes_str :: "string \<Rightarrow> string \<Rightarrow> bool" where
  "includes_str [] t = (t = [])"
| "includes_str (c # s) t = (prefix t (c # s) \<or> includes_str s t)"

fun join :: "string \<Rightarrow> string list \<Rightarrow> string" where
  "join sep [] = []"
| "join sep [x] = x"
| "join sep (x # y # ys) = x @ sep @ join sep (y # ys)"

fun showNat :: "nat \<Rightarrow> string" where
  "showNat n =
     (if n < 10 then [''0123456789'' ! n]
      else showNat (n div 10) @ [''0123456789'' ! (n mod 10)])"

declare showNat.simps [simp del]

section \<open>Schema validation (ingest-service/server.js, validateCSVSchema)\<close>

text \<open>
  A parsed record is an object whose keys are the header names, in column order, and
  whose values are strings: an association list. \<^verbatim>\<open>row[field]\<close> is \<open>map_of row field\<close>,
  \<^verbatim>\<open>undefined\<close> is \<open>None\<close>, \<^verbatim>\<open>Object.keys(row)\<close> is \<open>map fst row\<close>.
\<close>

type_synonym row = "(string \<times> string) list"

datatype validation = Valid | Invalid string

definition requiredFields :: "string list" where
  "requiredFields =
     [''transactionId'', ''amount'', ''fromAccount'', ''toAccount'', ''paymentMethod'',
      ''timestamp'']"

definition validPaymentMethods :: "string list" where
  "validPaymentMethods = [''RTGS'', ''NEFT'', ''IMPS'', ''UPI'']"

definition isBlankField :: "row \<Rightarrow> string \<Rightarrow> bool" where
  \<comment> \<open>\<^verbatim>\<open>!row[field] || row[field].toString().trim() === ''\<close>\<close>
  "isBlankField r field =
     (case map_of r field of None \<Rightarrow> True | Some v \<Rightarrow> v = [] \<or> trim v = [])"

definition amountRejected :: "row \<Rightarrow> bool" where
  \<comment> \<open>\<^verbatim>\<open>isNaN(parseFloat(row.amount)) || parseFloat(row.amount) <= 0\<close>\<close>
  "amountRejected r =
     (isNaN (parseFloatOf (map_of r ''amount'')) \<or> numLeZero (parseFloatOf (map_of r ''amount'')))"

definition paymentMethodAccepted :: "row \<Rightarrow> bool" where
  \<comment> \<open>\<^verbatim>\<open>validPaymentMethods.includes(row.paymentMethod)\<close>\<close>
  "paymentMethodAccepted r =
     (case map_of r ''paymentMethod'' of None \<Rightarrow> False | Some v \<Rightarrow> v \<in> set validPaymentMethods)"

fun validateRows :: "nat \<Rightarrow> row list \<Rightarrow> validation" where
  \<comment> \<open>The loop \<^verbatim>\<open>for (let i = 0; i < data.length; i++)\<close>, entered at index \<open>i\<close> with the rows
      from \<open>i\<close> on.\<close>
  "validateRows i [] = Valid"
| "validateRows i (r # rest) =
     (case find (isBlankField r) requiredFields of
        Some field \<Rightarrow> Invalid (''Row '' @ showNat (i + 1) @ '': '' @ field @ '' is required'')
      | None \<Rightarrow>
          if amountRejected r
          then Invalid (''Row '' @ showNat (i + 1) @ '': amount must be a positive number'')
          else if \<not> paymentMethodAccepted r
          then Invalid (''Row '' @ showNat (i + 1) @ '': paymentMethod must be one of '' @
                        join '', '' validPaymentMethods)
          else validateRows (i + 1) rest)"

definition validateCSVSchema :: "row list \<Rightarrow> validation" where
  "validateCSVSchema data =
     (case data of
        [] \<Rightarrow> Invalid ''CSV file is empty''
      | first # _ \<Rightarrow>
          (let missingFields = filter (\<lambda>field. field \<notin> set (map fst first)) requiredFields
           in if length missingFields > 0
              then Invalid (''Missing required fields: '' @ join '', '' missingFields)
              else validateRows 0 data))"

subsection \<open>The validation rules as the specification words them\<close>

text \<open>
  The specification lists the per-record rules in a fixed order: a blank required field,
  then an amount that is not a positive number, then a payment method outside the
  enumerated set. \<open>rulesInOrder\<close> is that list for one record, \<open>brokenRule\<close> the first rule
  of the list the record breaks, \<open>firstViolationBy\<close> the first record in file order that
  breaks a rule, with its 1-based row number, and \<open>reportBy\<close> the report the specification
  promises for a record set. These definitions follow the specification's words; they are
  compared with \<open>validateCSVSchema\<close> below.

  \<open>brokenRuleFileOrder\<close> is the other reading of "first violating field in file order":
  among the blank required fields of a record, the one in the leftmost column.
\<close>

datatype rule = BlankField string | BadAmount | BadPaymentMethod








subsection \<open>The amount as the specification words it\<close>

text \<open>
  The specification asks that the amount "parse as a number and be strictly positive".
  A number is taken to be a decimal numeral, white space around it apart: an optional
  sign, digits with an optional fraction or a fraction alone, an optional exponent, and
  nothing else. \<open>numeralOf\<close> reads such a numeral in full and returns its sign, its
  digits \<open>m\<close> and its exponent \<open>e\<close>, for the value \<open>\<plusminus> m * 10 ^ e\<close>; it returns
  \<open>None\<close> for every other string, \<open>12abc\<close>, \<open>1,000\<close> and \<open>Infinity\<close> among them.
  \<open>holdsNoNumber\<close>: there is no digit in the amount, and not the word \<open>Infinity\<close>.
  \<open>notPositiveAmount\<close>: the amount of the record is missing, holds no number, or is a
  number that is zero or negative. These definitions follow the specification's words;
  they are compared with the test of the validator below.
\<close>

definition exponentOf :: "string \<Rightarrow> int option" where
  \<comment> \<open>The whole string is an exponent part (\<open>e\<close> or \<open>E\<close>, an optional sign, at least one
      digit), or is empty.\<close>
  "exponentOf r =
     (case r of
        [] \<Rightarrow> Some 0
      | c # r1 \<Rightarrow>
          if c = CHR ''e'' \<or> c = CHR ''E'' then
            (case takeSign r1 of
               (neg, ds) \<Rightarrow>
                 if ds = [] \<or> \<not> list_all isDigit ds then None
                 else if neg then Some (- int (decimalValue ds))
                 else Some (int (decimalValue ds)))
          else None)"

definition numeralOf :: "string \<Rightarrow> (bool \<times> nat \<times> int) option" where
  "numeralOf t =
     (case takeSign t of
        (neg, r) \<Rightarrow>
          (let ip = takeWhile isDigit r;
               r1 = dropWhile isDigit r;
               fp = (case r1 of [] \<Rightarrow> []
                     | c # r2 \<Rightarrow> if c = CHR ''.'' then takeWhile isDigit r2 else []);
               r3 = (case r1 of [] \<Rightarrow> []
                     | c # r2 \<Rightarrow> if c = CHR ''.'' then dropWhile isDigit r2 else r1)
           in if ip = [] \<and> fp = [] then None
              else map_option (\<lambda>x. (neg, decimalValue (ip @ fp), x - int (length fp)))
                     (exponentOf r3)))"

definition holdsNoNumber :: "string \<Rightarrow> bool" where
  "holdsNoNumber s = (\<not> list_ex isDigit s \<and> \<not> includes_str s ''Infinity'')"

definition amountNumeral :: "row \<Rightarrow> (bool \<times> nat \<times> int) option" where
  "amountNumeral r =
     (case map_of r ''amount'' of None \<Rightarrow> None | Some s \<Rightarrow> numeralOf (trim s))"

definition notPositiveAmount :: "row \<Rightarrow> bool" where
  "notPositiveAmount r =
     (case map_of r ''amount'' of
        None \<Rightarrow> True
      | Some s \<Rightarrow>
          holdsNoNumber s \<or>
          (case numeralOf (trim s) of Some (neg, m, e) \<Rightarrow> neg \<or> m = 0 | None \<Rightarrow> False))"




definition prefixRow :: row where
  \<comment> \<open>An amount that is not a number but starts with digits.\<close>
  "prefixRow =
     [(''transactionId'', ''TXN004''), (''amount'', ''12abc''), (''fromAccount'', ''ACC1''),
      (''toAccount'', ''ACC2''), (''paymentMethod'', ''UPI''), (''timestamp'', ''2024-01-15'')]"


section \<open>Paths and the file system\<close>

subsection \<open>Node's \<^verbatim>\<open>path\<close> module (POSIX)\<close>

fun splitOn :: "char \<Rightarrow> string \<Rightarrow> string list" where
  \<comment> \<open>\<^verbatim>\<open>s.split(c)\<close>: the pieces between the occurrences of \<open>c\<close>.\<close>
  "splitOn c [] = [[]]"
| "splitOn c (x # xs) =
     (if x = c then [] # splitOn c xs
      else (case splitOn c xs of [] \<Rightarrow> [[x]] | s # ss \<Rightarrow> (x # s) # ss))"

fun normalizeSegments :: "bool \<Rightarrow> string list \<Rightarrow> string list \<Rightarrow> string list" where
  \<comment> \<open>\<^verbatim>\<open>normalizeString(path, allowAboveRoot)\<close> on the segments of the path: empty and
      \<open>.\<close> segments are dropped, \<open>..\<close> removes the segment before it; at the root it is
      dropped (absolute path) or kept (relative path).\<close>
  "normalizeSegments allowAboveRoot acc [] = acc"
| "normalizeSegments allowAboveRoot acc (s # ss) =
     (if s = [] \<or> s = ''.'' then normalizeSegments allowAboveRoot acc ss
      else if s = ''..'' then
        (if acc \<noteq> [] \<and> last acc \<noteq> ''..'' then normalizeSegments allowAboveRoot (butlast acc) ss
         else if allowAboveRoot then normalizeSegments allowAboveRoot (acc @ [''..'']) ss
         else normalizeSegments allowAboveRoot acc ss)
      else normalizeSegments allowAboveRoot (acc @ [s]) ss)"

definition normalize :: "string \<Rightarrow> string" where
  \<comment> \<open>\<^verbatim>\<open>path.normalize\<close>\<close>
  "normalize p =
     (if p = [] then ''.''
      else
        (let isAbsolute = (hd p = CHR ''/'');
             trailingSeparator = (last p = CHR ''/'');
             body = join ''/'' (normalizeSegments (\<not> isAbsolute) [] (splitOn CHR ''/'' p))
         in if body = [] then (if isAbsolute then ''/'' else if trailingSeparator then ''./'' else ''.'')
            else (if isAbsolute then ''/'' else []) @ body @ (if trailingSeparator then ''/'' else [])))"

definition path_join :: "string \<Rightarrow> string \<Rightarrow> string" where
  \<comment> \<open>\<^verbatim>\<open>path.join(a, b)\<close>: the non-empty arguments joined by \<open>/\<close>, then normalized.\<close>
  "path_join a b =
     (if a = [] \<and> b = [] then ''.''
      else if a = [] then normalize b
      else if b = [] then normalize a
      else normalize (a @ ''/'' @ b))"

definition basename :: "string \<Rightarrow> string" where
  \<comment> \<open>\<^verbatim>\<open>path.basename\<close>: the last non-empty segment.\<close>
  "basename p =
     (case rev (filter (\<lambda>s. s \<noteq> []) (splitOn CHR ''/'' p)) of [] \<Rightarrow> [] | s # _ \<Rightarrow> s)"

definition extname :: "string \<Rightarrow> string" where
  \<comment> \<open>\<^verbatim>\<open>path.extname\<close>: from the last \<open>.\<close> of the basename on; empty when there is no \<open>.\<close>,
      when the only \<open>.\<close> is the first character, and for \<open>..\<close>.\<close>
  "extname p =
     (let b = basename p; stem = dropWhile (\<lambda>c. c \<noteq> CHR ''.'') (rev b)
      in if stem = [] \<or> tl stem = [] \<or> b = ''..'' then []
         else CHR ''.'' # rev (takeWhile (\<lambda>c. c \<noteq> CHR ''.'') (rev b)))"

subsection \<open>The file system\<close>

text \<open>
  The file system is the list of its regular files, each under its canonical absolute
  path, in directory order. Directories are not listed: every directory a path walks
  through is taken to exist (the services create theirs at start-up), and there are no
  symbolic links, so the kernel resolves an absolute path to the canonical path
  \<open>resolvePath\<close> computes. A path with a trailing separator names a directory, never a
  regular file. A call that throws in Node returns \<open>None\<close> here.
\<close>

record inode =
  content :: string
  birthtime :: nat
  mtime :: nat

type_synonym filesystem = "(string \<times> inode) list"

record stats =
  st_size :: nat
  st_birthtime :: nat
  st_mtime :: nat

definition resolvePath :: "string \<Rightarrow> string" where
  "resolvePath p = CHR ''/'' # join ''/'' (normalizeSegments False [] (splitOn CHR ''/'' p))"

definition lookupFile :: "filesystem \<Rightarrow> string \<Rightarrow> inode option" where
  "lookupFile fs p = (if p = [] \<or> last p = CHR ''/'' then None else map_of fs (resolvePath p))"

definition existsSync :: "filesystem \<Rightarrow> string \<Rightarrow> bool" where
  "existsSync fs p = (lookupFile fs p \<noteq> None)"

definition readFileSync :: "filesystem \<Rightarrow> string \<Rightarrow> string option" where
  "readFileSync fs p = map_option content (lookupFile fs p)"

definition statSync :: "filesystem \<Rightarrow> string \<Rightarrow> stats option" where
  "statSync fs p =
     map_option
       (\<lambda>f. \<lparr>st_size = length (content f), st_birthtime = birthtime f, st_mtime = mtime f\<rparr>)
       (lookupFile fs p)"

definition writeFile :: "filesystem \<Rightarrow> string \<Rightarrow> string \<Rightarrow> nat \<Rightarrow> filesystem" where
  \<comment> \<open>Create the file, or replace the content of the file that is there, at clock \<open>t\<close>.\<close>
  "writeFile fs p bytes t =
     AList.update (resolvePath p)
       (case map_of fs (resolvePath p) of
          None \<Rightarrow> \<lparr>content = bytes, birthtime = t, mtime = t\<rparr>
        | Some f \<Rightarrow> f\<lparr>content := bytes, mtime := t\<rparr>)
       fs"

definition copyFileSync :: "filesystem \<Rightarrow> string \<Rightarrow> string \<Rightarrow> nat \<Rightarrow> filesystem option" where
  "copyFileSync fs src dst t =
     (case readFileSync fs src of
        None \<Rightarrow> None
      | Some bytes \<Rightarrow> Some (writeFile fs dst bytes t))"

definition unlinkSync :: "filesystem \<Rightarrow> string \<Rightarrow> filesystem" where
  "unlinkSync fs p = AList.delete (resolvePath p) fs"

definition isEntryName :: "string \<Rightarrow> bool" where
  "isEntryName n = (n \<noteq> [] \<and> CHR ''/'' \<notin> set n \<and> n \<noteq> ''.'' \<and> n \<noteq> ''..'')"

definition readdirSync :: "filesystem \<Rightarrow> string \<Rightarrow> string list" where
  \<comment> \<open>The names of the files directly in \<open>dir\<close> (a canonical path), in directory order.\<close>
  "readdirSync fs dir =
     filter isEntryName
       (map (\<lambda>k. drop (length dir + 1) k) (filter (prefix (dir @ ''/'')) (map fst fs)))"

section \<open>The ingest service (ingest-service/server.js)\<close>

text \<open>
  The handler of \<^verbatim>\<open>POST /upload\<close> runs against three shared resources: the file system,
  the Redis key space (the dedup ledger) and the Redis channel \<^verbatim>\<open>arealis:events\<close>.
  The Prometheus counters are left out: nothing reads them.
\<close>

record event =
  ev_type :: string
  ev_batchId :: string
  ev_filePath :: string
  ev_timestamp :: string

record system =
  files :: filesystem
  redisKeys :: "string \<rightharpoonup> string"
  channel :: "(string \<times> event) list"

text \<open>
  The two library functions the handler calls on the content of the upload are
  parameters of the model: the SHA-256 digest in hexadecimal, and \<^verbatim>\<open>Papa.parse\<close> with the
  handler's options (\<^verbatim>\<open>header: true\<close>, \<^verbatim>\<open>skipEmptyLines: true\<close>, headers trimmed).
\<close>

record parseResult =
  parseErrors :: "string list"
  parseData :: "row list"

record library =
  sha256 :: "string \<Rightarrow> string"
  papaParse :: "string \<Rightarrow> parseResult"

text \<open>
  What one request brings, and what its environment decides while it runs: the bytes of
  the part named \<open>file\<close> (\<open>None\<close> when the request has no such part), the suffix multer
  draws for the temporary file, the identifier \<^verbatim>\<open>uuidv4()\<close> returns, the clock readings,
  and whether the Redis calls and the copy succeed.
\<close>

record request =
  uploadedBytes :: "string option"
  uniqueSuffix :: string
  uuid :: string
  storedAt :: nat
  copiedAt :: nat
  publishedAt :: string
  setNXSucceeds :: bool
  copySucceeds :: bool
  publishSucceeds :: bool

datatype response =
    NoFileUploaded
  | DuplicateFile string
  | ParsingFailed "string list"
  | ValidationFailed string
  | Uploaded string string nat string
  | InternalError

text \<open>
  \<open>NoFileUploaded\<close>, \<open>DuplicateFile hash\<close>, \<open>ParsingFailed details\<close> and
  \<open>ValidationFailed details\<close> are the four 400 responses, \<open>Uploaded batchId filePath
  recordCount hash\<close> is the 200 response, \<open>InternalError\<close> the 500 response of the
  \<^verbatim>\<open>catch\<close> block.
\<close>

definition tempFilePath :: "request \<Rightarrow> string" where
  \<comment> \<open>multer's disk storage: destination \<^verbatim>\<open>/tmp/\<close>, file name
      \<^verbatim>\<open>file.fieldname + '-' + uniqueSuffix + '.csv'\<close> with the field name \<open>file\<close>.\<close>
  "tempFilePath q = path_join ''/tmp/'' (''file'' @ ''-'' @ uniqueSuffix q @ ''.csv'')"

definition finalFilePath :: "request \<Rightarrow> string" where
  \<comment> \<open>\<^verbatim>\<open>`/app/data/processed/${batchId}.csv`\<close>\<close>
  "finalFilePath q = ''/app/data/processed/'' @ uuid q @ ''.csv''"

definition calculateFileHash :: "library \<Rightarrow> filesystem \<Rightarrow> string \<Rightarrow> string option" where
  \<comment> \<open>\<open>None\<close>: \<^verbatim>\<open>readFileSync\<close> throws.\<close>
  "calculateFileHash L fs filePath = map_option (sha256 L) (readFileSync fs filePath)"

definition checkDuplicate ::
  "request \<Rightarrow> (string \<rightharpoonup> string) \<Rightarrow> string \<Rightarrow> (bool \<times> (string \<rightharpoonup> string)) option" where
  \<comment> \<open>\<^verbatim>\<open>SETNX filehash:<hash> processed\<close>, one atomic Redis command. The client is taken
      to return the integer reply of the command, as the comment in the source says: 1
      when the key was set, 0 when it was there; the function returns \<^verbatim>\<open>result === 1\<close>.
      \<open>None\<close>: the call fails and \<^verbatim>\<open>checkDuplicate\<close> throws.\<close>
  "checkDuplicate q keys fileHash =
     (if \<not> setNXSucceeds q then None
      else if keys (''filehash:'' @ fileHash) = None
      then Some (True, keys(''filehash:'' @ fileHash \<mapsto> ''processed''))
      else Some (False, keys))"

definition publishBatchCreated :: "request \<Rightarrow> system \<Rightarrow> string \<Rightarrow> string \<Rightarrow> system" where
  \<comment> \<open>A failed publish is caught and logged inside the function.\<close>
  "publishBatchCreated q s batchId filePath =
     (if publishSucceeds q
      then s\<lparr>channel := channel s @
               [(''arealis:events'',
                 \<lparr>ev_type = ''batch.created'', ev_batchId = batchId, ev_filePath = filePath,
                  ev_timestamp = publishedAt q\<rparr>)]\<rparr>
      else s)"

text \<open>
  The positions of one request in the handler. \<open>Arriving\<close>: multer has not stored the part
  yet. \<open>Received\<close>: the handler is entered. \<open>Hashed h\<close>: the digest is computed.
  \<open>Claimed h\<close>: \<^verbatim>\<open>checkDuplicate\<close> returned true. \<open>Validated h n\<close>: the content
  parsed into \<open>n\<close> records and passed validation. \<open>Stored h n\<close>: the copy returned.
  \<open>Notified h n\<close>: \<^verbatim>\<open>publishBatchCreated\<close> returned. \<open>Responded r\<close>: the response is sent
  and the \<^verbatim>\<open>finally\<close> block is pending. \<open>Finished r\<close>: the handler has returned.
\<close>

datatype stage =
    Arriving
  | Received
  | Hashed string
  | Claimed string
  | Validated string nat
  | Stored string nat
  | Notified string nat
  | Responded response
  | Finished response

fun step :: "library \<Rightarrow> request \<Rightarrow> stage \<times> system \<Rightarrow> stage \<times> system" where
  "step L q (Arriving, s) =
     (case uploadedBytes q of
        None \<Rightarrow> (Received, s)
      | Some bytes \<Rightarrow>
          (Received, s\<lparr>files := writeFile (files s) (tempFilePath q) bytes (storedAt q)\<rparr>))"
| "step L q (Received, s) =
     (case uploadedBytes q of
        None \<Rightarrow> (Responded NoFileUploaded, s)
      | Some _ \<Rightarrow>
          (case calculateFileHash L (files s) (tempFilePath q) of
             None \<Rightarrow> (Responded InternalError, s)
           | Some fileHash \<Rightarrow> (Hashed fileHash, s)))"
| "step L q (Hashed fileHash, s) =
     (case checkDuplicate q (redisKeys s) fileHash of
        None \<Rightarrow> (Responded InternalError, s)
      | Some (isNotDuplicate, keys) \<Rightarrow>
          if \<not> isNotDuplicate then (Responded (DuplicateFile fileHash), s\<lparr>redisKeys := keys\<rparr>)
          else (Claimed fileHash, s\<lparr>redisKeys := keys\<rparr>))"
| "step L q (Claimed fileHash, s) =
     (case readFileSync (files s) (tempFilePath q) of
        None \<Rightarrow> (Responded InternalError, s)
      | Some csvContent \<Rightarrow>
          if length (parseErrors (papaParse L csvContent)) > 0
          then (Responded (ParsingFailed (parseErrors (papaParse L csvContent))), s)
          else (case validateCSVSchema (parseData (papaParse L csvContent)) of
                  Invalid details \<Rightarrow> (Responded (ValidationFailed details), s)
                | Valid \<Rightarrow> (Validated fileHash (length (parseData (papaParse L csvContent))), s)))"
| "step L q (Validated fileHash n, s) =
     (if \<not> copySucceeds q then (Responded InternalError, s)
      else (case copyFileSync (files s) (tempFilePath q) (finalFilePath q) (copiedAt q) of
              None \<Rightarrow> (Responded InternalError, s)
            | Some fs \<Rightarrow> (Stored fileHash n, s\<lparr>files := fs\<rparr>)))"
| "step L q (Stored fileHash n, s) =
     (Notified fileHash n, publishBatchCreated q s (uuid q) (finalFilePath q))"
| "step L q (Notified fileHash n, s) =
     (Responded (Uploaded (uuid q) (finalFilePath q) n fileHash), s)"
| "step L q (Responded r, s) =
     (case uploadedBytes q of
        None \<Rightarrow> (Finished r, s)
      | Some _ \<Rightarrow>
          if existsSync (files s) (tempFilePath q)
          then (Finished r, s\<lparr>files := unlinkSync (files s) (tempFilePath q)\<rparr>)
          else (Finished r, s))"
| "step L q (Finished r, s) = (Finished r, s)"

definition upload :: "library \<Rightarrow> request \<Rightarrow> system \<Rightarrow> stage \<times> system" where
  \<comment> \<open>One request run alone, from its arrival through the eight positions of the handler.\<close>
  "upload L q s =
     step L q (step L q (step L q (step L q (step L q (step L q (step L q (step L q
       (Arriving, s))))))))"

text \<open>
  Several requests, in one worker or in several, run interleaved: a schedule is the list
  of the indices of the requests that take the next step, in order. Each step is one
  synchronous stretch of the handler around one effect on the shared resources; the claim
  (\<open>Hashed\<close> to \<open>Claimed\<close>) is the one Redis command.
\<close>

definition scheduleStep ::
  "library \<Rightarrow> request list \<Rightarrow> system \<times> stage list \<Rightarrow> nat \<Rightarrow> system \<times> stage list" where
  "scheduleStep L qs c i =
     (if i < length qs \<and> i < length (snd c)
      then (snd (step L (qs ! i) (snd c ! i, fst c)),
            (snd c)[i := fst (step L (qs ! i) (snd c ! i, fst c))])
      else c)"

definition run ::
  "library \<Rightarrow> request list \<Rightarrow> nat list \<Rightarrow> system \<Rightarrow> system \<times> stage list" where
  "run L qs schedule s =
     foldl (scheduleStep L qs) (s, replicate (length qs) Arriving) schedule"

subsection \<open>Batch status lookup\<close>

datatype statusResponse =
    BatchNotFound
  | BatchProcessed string string nat nat nat
  | StatusError

definition batchStatus :: "filesystem \<Rightarrow> string \<Rightarrow> statusResponse" where
  \<comment> \<open>\<^verbatim>\<open>GET /batch/:batchId/status\<close>; \<open>BatchProcessed batchId filePath size createdAt
      modifiedAt\<close>.\<close>
  "batchStatus fs batchId =
     (let filePath = ''/app/data/processed/'' @ batchId @ ''.csv''
      in if \<not> existsSync fs filePath then BatchNotFound
         else (case statSync fs filePath of
                 None \<Rightarrow> StatusError
               | Some st \<Rightarrow>
                   BatchProcessed batchId filePath (st_size st) (st_birthtime st) (st_mtime st)))"

subsection \<open>A library instance and requests for the closed examples\<close>

text \<open>
  The theorems hold for every digest and every parser. The closed examples run the
  handler with the identity as digest (no two contents collide) and with a parser for
  comma-separated text without quotes, which on such text returns what \<^verbatim>\<open>Papa.parse\<close>
  returns under the handler's options: empty lines are skipped, the first line gives the
  trimmed header names, every other line gives one record, and a line with too few or
  too many fields is an error.
\<close>

definition unquotedRecords :: "string list \<Rightarrow> string list list \<Rightarrow> row list" where
  "unquotedRecords header rows = map (\<lambda>fields. zip header fields) rows"

definition unquotedParse :: "string \<Rightarrow> parseResult" where
  "unquotedParse csvContent =
     (case filter (\<lambda>l. l \<noteq> []) (splitOn CHR 0x0A csvContent) of
        [] \<Rightarrow> \<lparr>parseErrors = [''UndetectableDelimiter''], parseData = []\<rparr>
      | h # ls \<Rightarrow>
          \<lparr>parseErrors =
             map (\<lambda>l. if length (splitOn CHR '','' l) < length (splitOn CHR '','' h)
                        then ''TooFewFields'' else ''TooManyFields'')
               (filter (\<lambda>l. length (splitOn CHR '','' l) \<noteq> length (splitOn CHR '','' h)) ls),
           parseData = unquotedRecords (map trim (splitOn CHR '','' h)) (map (splitOn CHR '','') ls)\<rparr>)"

definition exampleLibrary :: library where
  "exampleLibrary = \<lparr>sha256 = (\<lambda>bytes. bytes), papaParse = unquotedParse\<rparr>"

definition emptySystem :: system where
  "emptySystem = \<lparr>files = [], redisKeys = Map.empty, channel = []\<rparr>"

definition incompleteBytes :: string where
  \<comment> \<open>A well-formed CSV text with two of the six required columns.\<close>
  "incompleteBytes = ''transactionId,amount'' @ [CHR 0x0A] @ ''T1,5''"

definition completeBytes :: string where
  "completeBytes =
     ''transactionId,amount,fromAccount,toAccount,paymentMethod,timestamp'' @ [CHR 0x0A] @
     ''T1,5,A,B,UPI,2024''"

definition exampleRequest :: "string \<Rightarrow> string \<Rightarrow> string \<Rightarrow> request" where
  "exampleRequest bytes sfx batchId =
     \<lparr>uploadedBytes = Some bytes, uniqueSuffix = sfx, uuid = batchId, storedAt = 1,
      copiedAt = 2, publishedAt = ''t'', setNXSucceeds = True, copySucceeds = True,
      publishSucceeds = True\<rparr>"

definition seededSystem :: system where
  \<comment> \<open>A state whose ledger already holds one claim.\<close>
  "seededSystem =
     \<lparr>files = [], redisKeys = [''filehash:old'' \<mapsto> ''processed''], channel = []\<rparr>"

subsection \<open>Notions used in the statements about the handler\<close>

definition wfRequest :: "request \<Rightarrow> bool" where
  \<comment> \<open>What multer and \<^verbatim>\<open>uuidv4\<close> return holds no path separator: the suffix is two
      numbers joined by \<open>-\<close>, the identifier is hexadecimal digits and \<open>-\<close>.\<close>
  "wfRequest q = (CHR ''/'' \<notin> set (uniqueSuffix q) \<and> CHR ''/'' \<notin> set (uuid q))"

fun remainingSteps :: "stage \<Rightarrow> nat" where
  "remainingSteps Arriving = 8"
| "remainingSteps Received = 7"
| "remainingSteps (Hashed h) = 6"
| "remainingSteps (Claimed h) = 5"
| "remainingSteps (Validated h n) = 4"
| "remainingSteps (Stored h n) = 3"
| "remainingSteps (Notified h n) = 2"
| "remainingSteps (Responded r) = 1"
| "remainingSteps (Finished r) = 0"

fun stageHash :: "stage \<Rightarrow> string option" where
  \<comment> \<open>The digest a request carries once it has computed it.\<close>
  "stageHash (Hashed h) = Some h"
| "stageHash (Claimed h) = Some h"
| "stageHash (Validated h n) = Some h"
| "stageHash (Stored h n) = Some h"
| "stageHash (Notified h n) = Some h"
| "stageHash (Responded (Uploaded b p n h)) = Some h"
| "stageHash (Responded (DuplicateFile h)) = Some h"
| "stageHash (Finished (Uploaded b p n h)) = Some h"
| "stageHash (Finished (DuplicateFile h)) = Some h"
| "stageHash _ = None"

fun holdsClaim :: "stage \<Rightarrow> string option" where
  \<comment> \<open>The digest whose claim a request won and on which it is still proceeding or has
      succeeded.\<close>
  "holdsClaim (Claimed h) = Some h"
| "holdsClaim (Validated h n) = Some h"
| "holdsClaim (Stored h n) = Some h"
| "holdsClaim (Notified h n) = Some h"
| "holdsClaim (Responded (Uploaded b p n h)) = Some h"
| "holdsClaim (Finished (Uploaded b p n h)) = Some h"
| "holdsClaim _ = None"


fun admitted :: "stage \<Rightarrow> bool" where
  \<comment> \<open>The request ended with the 200 response: the batch is stored and notified.\<close>
  "admitted (Finished (Uploaded b p n h)) = True"
| "admitted _ = False"

fun finished :: "stage \<Rightarrow> bool" where
  "finished (Finished r) = True"
| "finished _ = False"

definition published :: "system \<Rightarrow> system \<Rightarrow> event list" where
  \<comment> \<open>The notifications on the channel of the second state that were not yet on the
      channel of the first.\<close>
  "published s0 s = map snd (drop (length (channel s0)) (channel s))"

definition storedInvariant :: "request list \<Rightarrow> system \<Rightarrow> system \<times> stage list \<Rightarrow> bool" where
  \<comment> \<open>Every request at \<open>Stored\<close> has its artifact in storage; the channel has only grown,
      and every notification added refers to the final path of a request and to a file
      that is in storage.\<close>
  "storedInvariant qs s0 c =
     (length (snd c) = length qs \<and>
      (\<forall>i<length qs. \<forall>h n. snd c ! i = Stored h n \<longrightarrow>
         existsSync (files (fst c)) (finalFilePath (qs ! i))) \<and>
      take (length (channel s0)) (channel (fst c)) = channel s0 \<and>
      (\<forall>e\<in>set (published s0 (fst c)).
         existsSync (files (fst c)) (ev_filePath e) \<and>
         (\<exists>q\<in>set qs. ev_filePath e = finalFilePath q)))"



definition acceptable :: "library \<Rightarrow> string \<Rightarrow> bool" where
  \<comment> \<open>The bytes parse without error and the records pass validation.\<close>
  "acceptable L bytes =
     (parseErrors (papaParse L bytes) = [] \<and>
      validateCSVSchema (parseData (papaParse L bytes)) = Valid)"

definition winnerResponse :: "library \<Rightarrow> request \<Rightarrow> string \<Rightarrow> response" where
  \<comment> \<open>The response of the handler to the request that wins the claim on the digest of
      \<open>bytes\<close>, when nothing fails after the claim: the parse error, the validation error,
      or the success response with the identifier of the request.\<close>
  "winnerResponse L q bytes =
     (if length (parseErrors (papaParse L bytes)) > 0
      then ParsingFailed (parseErrors (papaParse L bytes))
      else (case validateCSVSchema (parseData (papaParse L bytes)) of
              Invalid details \<Rightarrow> ValidationFailed details
            | Valid \<Rightarrow>
                Uploaded (uuid q) (finalFilePath q) (length (parseData (papaParse L bytes)))
                  (sha256 L bytes)))"

fun wonClaim :: "stage \<Rightarrow> bool" where
  \<comment> \<open>The positions and the responses that only a request whose claim call returned true
      reaches.\<close>
  "wonClaim (Claimed h) = True"
| "wonClaim (Validated h n) = True"
| "wonClaim (Stored h n) = True"
| "wonClaim (Notified h n) = True"
| "wonClaim (Responded (ParsingFailed es)) = True"
| "wonClaim (Responded (ValidationFailed e)) = True"
| "wonClaim (Responded (Uploaded b p n h)) = True"
| "wonClaim (Finished (ParsingFailed es)) = True"
| "wonClaim (Finished (ValidationFailed e)) = True"
| "wonClaim (Finished (Uploaded b p n h)) = True"
| "wonClaim _ = False"

fun pastValidation :: "stage \<Rightarrow> bool" where
  \<comment> \<open>The request has passed validation: it is about to copy the file into storage, has
      copied it, or has answered with the success response.\<close>
  "pastValidation (Validated h n) = True"
| "pastValidation (Stored h n) = True"
| "pastValidation (Notified h n) = True"
| "pastValidation (Responded (Uploaded b p n h)) = True"
| "pastValidation (Finished (Uploaded b p n h)) = True"
| "pastValidation _ = False"

fun expectedStage :: "library \<Rightarrow> request \<Rightarrow> string \<Rightarrow> stage \<Rightarrow> bool" where
  \<comment> \<open>The positions a request that brought \<open>bytes\<close> can be in when neither its claim call
      nor its copy fails: its only responses are the winner's response and the duplicate
      response.\<close>
  "expectedStage L q bytes Arriving = True"
| "expectedStage L q bytes Received = True"
| "expectedStage L q bytes (Hashed h) = (h = sha256 L bytes)"
| "expectedStage L q bytes (Claimed h) = (h = sha256 L bytes)"
| "expectedStage L q bytes (Validated h n) =
     (acceptable L bytes \<and> h = sha256 L bytes \<and> n = length (parseData (papaParse L bytes)))"
| "expectedStage L q bytes (Stored h n) =
     (acceptable L bytes \<and> h = sha256 L bytes \<and> n = length (parseData (papaParse L bytes)))"
| "expectedStage L q bytes (Notified h n) =
     (acceptable L bytes \<and> h = sha256 L bytes \<and> n = length (parseData (papaParse L bytes)))"
| "expectedStage L q bytes (Responded r) =
     (r = winnerResponse L q bytes \<or> r = DuplicateFile (sha256 L bytes))"
| "expectedStage L q bytes (Finished r) =
     (r = winnerResponse L q bytes \<or> r = DuplicateFile (sha256 L bytes))"





definition tempFileInvariant :: "request list \<Rightarrow> system \<times> stage list \<Rightarrow> bool" where
  \<comment> \<open>The temporary file of a request that has returned does not exist.\<close>
  "tempFileInvariant qs c =
     (length (snd c) = length qs \<and>
      (\<forall>i<length qs. uploadedBytes (qs ! i) \<noteq> None \<and> finished (snd c ! i) \<longrightarrow>
         \<not> existsSync (files (fst c)) (tempFilePath (qs ! i))))"

section \<open>The evidence service (evidence-service/server.js)\<close>

definition EVIDENCE_DIR :: string where
  "EVIDENCE_DIR = ''/app/data/evidence''"

record metadata =
  md_filename :: string
  md_size :: nat
  md_createdAt :: nat
  md_modifiedAt :: nat
  md_hash :: "string option"
  md_mimeType :: string

definition getMimeType :: "string \<Rightarrow> string" where
  "getMimeType filePath =
     (case map_of
        [(''.csv'', ''text/csv''),
         (''.json'', ''application/json''),
         (''.txt'', ''text/plain''),
         (''.pdf'', ''application/pdf''),
         (''.xlsx'', ''application/vnd.openxmlformats-officedocument.spreadsheetml.sheet''),
         (''.xml'', ''application/xml'')]
        (toLowerCase (extname filePath)) of
        None \<Rightarrow> ''application/octet-stream''
      | Some t \<Rightarrow> t)"

definition getFileMetadata :: "(string \<Rightarrow> string) \<Rightarrow> filesystem \<Rightarrow> string \<Rightarrow> metadata option" where
  \<comment> \<open>\<open>None\<close> is \<^verbatim>\<open>null\<close>: \<^verbatim>\<open>statSync\<close> threw. The hash is \<^verbatim>\<open>null\<close> when the file cannot
      be read. The first argument is the SHA-256 digest.\<close>
  "getFileMetadata digest fs filePath =
     (case statSync fs filePath of
        None \<Rightarrow> None
      | Some st \<Rightarrow>
          Some \<lparr>md_filename = basename filePath, md_size = st_size st,
                md_createdAt = st_birthtime st, md_modifiedAt = st_mtime st,
                md_hash = map_option digest (readFileSync fs filePath),
                md_mimeType = getMimeType filePath\<rparr>)"

record listing =
  ls_filename :: string
  ls_url :: string
  ls_metadata :: "metadata option"

definition fileEntry :: "string \<Rightarrow> (string \<Rightarrow> string) \<Rightarrow> filesystem \<Rightarrow> string \<Rightarrow> listing" where
  \<comment> \<open>\<^verbatim>\<open>{ filename, url, ...metadata }\<close>: the metadata's own \<open>filename\<close> replaces the
      listed one when the metadata is not \<^verbatim>\<open>null\<close>.\<close>
  "fileEntry port digest fs filename =
     (let md = getFileMetadata digest fs (path_join EVIDENCE_DIR filename)
      in \<lparr>ls_filename = (case md of None \<Rightarrow> filename | Some m \<Rightarrow> md_filename m),
          ls_url = ''http://localhost:'' @ port @ ''/'' @ filename,
          ls_metadata = md\<rparr>)"

definition listFiles :: "string \<Rightarrow> (string \<Rightarrow> string) \<Rightarrow> filesystem \<Rightarrow> listing list" where
  \<comment> \<open>\<^verbatim>\<open>GET /files\<close>\<close>
  "listFiles port digest fs = map (fileEntry port digest fs) (readdirSync fs EVIDENCE_DIR)"

definition searchFiles ::
  "string \<Rightarrow> (string \<Rightarrow> string) \<Rightarrow> filesystem \<Rightarrow> string \<Rightarrow> listing list" where
  \<comment> \<open>\<^verbatim>\<open>GET /search/:pattern\<close>\<close>
  "searchFiles port digest fs pattern =
     map (fileEntry port digest fs)
       (filter (\<lambda>filename. includes_str (toLowerCase filename) (toLowerCase pattern))
          (readdirSync fs EVIDENCE_DIR))"

datatype getResponse =
    InvalidFilePath
  | FileNotFound
  | FileServed metadata string
  | ServeFailed

definition getFile :: "(string \<Rightarrow> string) \<Rightarrow> filesystem \<Rightarrow> string \<Rightarrow> getResponse" where
  \<comment> \<open>\<^verbatim>\<open>GET /:filename\<close>: 400 for a path that fails the prefix check, 404 for a missing
      file, otherwise the headers from the metadata and the bytes of the file.\<close>
  "getFile digest fs filename =
     (let filePath = path_join EVIDENCE_DIR filename
      in if \<not> prefix EVIDENCE_DIR filePath then InvalidFilePath
         else if \<not> existsSync fs filePath then FileNotFound
         else (case getFileMetadata digest fs filePath of
                 None \<Rightarrow> ServeFailed
               | Some md \<Rightarrow>
                   (case readFileSync fs filePath of
                      None \<Rightarrow> ServeFailed
                    | Some bytes \<Rightarrow> FileServed md bytes)))"

definition withinRoot :: "string \<Rightarrow> string \<Rightarrow> bool" where
  \<comment> \<open>The canonical path \<open>p\<close> is strictly inside the directory \<open>root\<close>: the segments of
      \<open>root\<close> are a proper prefix of the segments of \<open>p\<close>.\<close>
  "withinRoot root p =
     strict_prefix (normalizeSegments False [] (splitOn CHR ''/'' root))
       (normalizeSegments False [] (splitOn CHR ''/'' p))"

subsection \<open>File systems for the closed examples\<close>

definition secretFile :: inode where
  "secretFile = \<lparr>content = ''secret'', birthtime = 1, mtime = 2\<rparr>"

definition siblingFs :: filesystem where
  \<comment> \<open>One artifact in the evidence root, and one file in a sibling directory whose name
      starts with the name of the root.\<close>
  "siblingFs =
     [(''/app/data/evidence/Report.CSV'', \<lparr>content = ''a,b'', birthtime = 1, mtime = 1\<rparr>),
      (''/app/data/evidence/notes.txt'', \<lparr>content = ''n'', birthtime = 1, mtime = 1\<rparr>),
      (''/app/data/evidence-backup/secret.csv'', secretFile)]"

definition secretFs :: filesystem where
  \<comment> \<open>A file next to the processed directory and the evidence root, inside neither.\<close>
  "secretFs = [(''/app/data/secrets/keys.csv'', secretFile)]"

section \<open>Properties of the schema validator\<close>











lemmas eval_validate =
  validateCSVSchema_def requiredFields_def isBlankField_def trim_def isWhiteSpace_def
  amountRejected_def parseFloatOf_def parseFloat_def takeSign_def isDigit_def isNaN_def
  numLeZero_def numGtZero_def roundsToZero_def decimalValue_def digitValue_def exponentPart_def
  paymentMethodAccepted_def validPaymentMethods_def showNat.simps

lemma numGtZero_iff: "numGtZero x = (\<not> isNaN x \<and> \<not> numLeZero x)"
  by (cases x) (auto simp: numGtZero_def isNaN_def numLeZero_def)





lemma amountRejected_iff:
  "amountRejected r = (\<not> numGtZero (parseFloatOf (map_of r ''amount'')))"
  by (auto simp: amountRejected_def numGtZero_iff)

subsection \<open>Numerals and what the validator reads\<close>



















lemmas eval_numeral =
  amountNumeral_def notPositiveAmount_def holdsNoNumber_def numeralOf_def exponentOf_def
  trim_def isWhiteSpace_def takeSign_def isDigit_def decimalValue_def digitValue_def






text \<open>
  The validator reads the amount with \<^verbatim>\<open>parseFloat\<close>, which stops at the first character
  that cannot continue a numeral. The test that the source introduces with the comment
  \<^verbatim>\<open>Validate amount is numeric\<close> therefore lets through amounts that are not numbers:
  \<open>12abc\<close> is read as 12, \<open>1,000\<close> as 1, \<open>9/11/2024\<close> as 9, and \<open>Infinity\<close> as an
  infinite Number. The statements above leave these amounts out.
\<close>

lemma amount_not_numeric_accepted:
  "validateCSVSchema [prefixRow] = Valid \<and>
   map_of prefixRow ''amount'' = Some ''12abc'' \<and>
   amountNumeral prefixRow = None \<and>
   parseFloat ''12abc'' = Decimal False 12 0 \<and>
   numeralOf ''1,000'' = None \<and> parseFloat ''1,000'' = Decimal False 1 0 \<and>
   numeralOf ''9/11/2024'' = None \<and> parseFloat ''9/11/2024'' = Decimal False 9 0 \<and>
   numeralOf ''Infinity'' = None \<and> parseFloat ''Infinity'' = Infinite False"
  by (simp add: eval_validate eval_numeral prefixRow_def)

section \<open>Properties of paths and of the file system\<close>

lemma splitOn_no_sep: "c \<notin> set s \<Longrightarrow> splitOn c s = [s]"
  by (induction s) auto

lemma join_two: "join sep [a, b] = a @ sep @ b"
  by simp

lemma tempFilePath_wf:
  assumes "wfRequest q"
  shows "tempFilePath q = ''/tmp/file-'' @ uniqueSuffix q @ ''.csv''"
proof -
  have "CHR ''/'' \<notin> set (uniqueSuffix q @ ''.csv'')"
    using assms by (simp add: wfRequest_def)
  then have s: "splitOn CHR ''/'' (uniqueSuffix q @ ''.csv'') = [uniqueSuffix q @ ''.csv'']"
    by (rule splitOn_no_sep)
  show ?thesis
    by (simp add: tempFilePath_def path_join_def normalize_def s)
qed

lemma resolvePath_temp:
  assumes "wfRequest q"
  shows "resolvePath (tempFilePath q) = tempFilePath q"
proof -
  have "CHR ''/'' \<notin> set (uniqueSuffix q @ ''.csv'')"
    using assms by (simp add: wfRequest_def)
  then have s: "splitOn CHR ''/'' (uniqueSuffix q @ ''.csv'') = [uniqueSuffix q @ ''.csv'']"
    by (rule splitOn_no_sep)
  show ?thesis
    by (simp add: tempFilePath_wf [OF assms] resolvePath_def s)
qed

lemma resolvePath_final:
  assumes "wfRequest q"
  shows "resolvePath (finalFilePath q) = finalFilePath q"
proof -
  have "CHR ''/'' \<notin> set (uuid q @ ''.csv'')"
    using assms by (simp add: wfRequest_def)
  then have s: "splitOn CHR ''/'' (uuid q @ ''.csv'') = [uuid q @ ''.csv'']"
    by (rule splitOn_no_sep)
  show ?thesis
    by (simp add: finalFilePath_def resolvePath_def s)
qed

lemma temp_not_final: "wfRequest q \<Longrightarrow> tempFilePath q \<noteq> finalFilePath q'"
  by (simp add: tempFilePath_wf finalFilePath_def)

lemma temp_inject:
  "wfRequest q \<Longrightarrow> wfRequest q' \<Longrightarrow> tempFilePath q = tempFilePath q' \<Longrightarrow>
   uniqueSuffix q = uniqueSuffix q'"
  by (simp add: tempFilePath_wf)

lemma temp_valid: "wfRequest q \<Longrightarrow> tempFilePath q \<noteq> [] \<and> last (tempFilePath q) \<noteq> CHR ''/''"
  by (simp add: tempFilePath_wf)

lemma final_valid: "finalFilePath q \<noteq> [] \<and> last (finalFilePath q) \<noteq> CHR ''/''"
  by (simp add: finalFilePath_def)

lemma lookup_write:
  "lookupFile (writeFile fs p bytes t) p' =
     (if p' \<noteq> [] \<and> last p' \<noteq> CHR ''/'' \<and> resolvePath p' = resolvePath p
      then Some (case map_of fs (resolvePath p) of
                   None \<Rightarrow> \<lparr>content = bytes, birthtime = t, mtime = t\<rparr>
                 | Some f \<Rightarrow> f\<lparr>content := bytes, mtime := t\<rparr>)
      else lookupFile fs p')"
  by (simp add: lookupFile_def writeFile_def update_conv')

lemma lookup_unlink:
  "lookupFile (unlinkSync fs p) p' =
     (if resolvePath p' = resolvePath p then None else lookupFile fs p')"
  by (simp add: lookupFile_def unlinkSync_def delete_conv')

lemma read_write:
  "readFileSync (writeFile fs p bytes t) p' =
     (if p' \<noteq> [] \<and> last p' \<noteq> CHR ''/'' \<and> resolvePath p' = resolvePath p
      then Some bytes else readFileSync fs p')"
  by (simp add: readFileSync_def lookup_write split: option.split)

lemma read_unlink:
  "readFileSync (unlinkSync fs p) p' =
     (if resolvePath p' = resolvePath p then None else readFileSync fs p')"
  by (simp add: readFileSync_def lookup_unlink)

lemma exists_read: "existsSync fs p = (readFileSync fs p \<noteq> None)"
  by (simp add: existsSync_def readFileSync_def)

lemma exists_unlink_same: "\<not> existsSync (unlinkSync fs p) p"
  by (simp add: existsSync_def lookup_unlink)

lemma read_write_same:
  "readFileSync (writeFile fs p bytes t) p =
     (if p \<noteq> [] \<and> last p \<noteq> CHR ''/'' then Some bytes else None)"
  by (simp add: read_write) (simp add: readFileSync_def lookupFile_def)

section \<open>Properties of the upload handler\<close>

subsection \<open>One request run alone\<close>

lemma step_remaining:
  "remainingSteps (fst (step L q (st, s))) \<le> remainingSteps st - 1"
  by (cases st)
     (auto simp: Let_def split: option.splits validation.splits prod.splits if_splits)

lemma step_finished_clean:
  assumes "uploadedBytes q \<noteq> None"
    and "finished st \<longrightarrow> \<not> existsSync (files s) (tempFilePath q)"
  shows "finished (fst (step L q (st, s))) \<longrightarrow>
         \<not> existsSync (files (snd (step L q (st, s)))) (tempFilePath q)"
  using assms
  by (cases st)
     (auto simp: exists_unlink_same split: option.splits validation.splits prod.splits if_splits)

lemma funpow_step_remaining:
  "remainingSteps (fst ((step L q ^^ k) (st, s))) \<le> remainingSteps st - k"
proof (induction k)
  case 0
  show ?case by simp
next
  case (Suc k)
  obtain st' s' where c: "(step L q ^^ k) (st, s) = (st', s')"
    by (cases "(step L q ^^ k) (st, s)")
  show ?case
    using Suc step_remaining [of L q st' s'] by (simp add: c)
qed

lemma funpow_step_clean:
  assumes "uploadedBytes q \<noteq> None"
  shows "finished (fst ((step L q ^^ k) (Arriving, s))) \<longrightarrow>
         \<not> existsSync (files (snd ((step L q ^^ k) (Arriving, s)))) (tempFilePath q)"
proof (induction k)
  case 0
  show ?case by simp
next
  case (Suc k)
  obtain st' s' where c: "(step L q ^^ k) (Arriving, s) = (st', s')"
    by (cases "(step L q ^^ k) (Arriving, s)")
  show ?case
    using Suc step_finished_clean [OF assms, of st' s' L] by (simp add: c)
qed

lemma upload_funpow: "upload L q s = (step L q ^^ 8) (Arriving, s)"
  by (simp add: upload_def eval_nat_numeral)

lemma remaining_zero: "remainingSteps st = 0 \<Longrightarrow> \<exists>r. st = Finished r"
  by (cases st) auto

lemma upload_finishes: "\<exists>r. fst (upload L q s) = Finished r"
proof -
  have "remainingSteps (fst (upload L q s)) \<le> remainingSteps Arriving - 8"
    unfolding upload_funpow by (rule funpow_step_remaining)
  then show ?thesis by (simp add: remaining_zero)
qed

lemma upload_success_path:
  assumes b: "uploadedBytes q = Some bytes"
    and wf: "wfRequest q"
    and nx: "setNXSucceeds q"
    and fresh: "redisKeys s (''filehash:'' @ sha256 L bytes) = None"
    and pe: "parseErrors (papaParse L bytes) = []"
    and va: "validateCSVSchema (parseData (papaParse L bytes)) = Valid"
    and cp: "copySucceeds q"
  shows "fst (upload L q s) =
           Finished (Uploaded (uuid q) (finalFilePath q) (length (parseData (papaParse L bytes)))
             (sha256 L bytes))"
    and "readFileSync (files (snd (upload L q s))) (finalFilePath q) = Some bytes"
    and "redisKeys (snd (upload L q s)) (''filehash:'' @ sha256 L bytes) = Some ''processed''"
    and "channel (snd (upload L q s)) =
           (if publishSucceeds q
            then channel s @
              [(''arealis:events'',
                \<lparr>ev_type = ''batch.created'', ev_batchId = uuid q,
                 ev_filePath = finalFilePath q, ev_timestamp = publishedAt q\<rparr>)]
            else channel s)"
proof -
  note tv = temp_valid [OF wf] and fv = final_valid [of q]
    and rt = resolvePath_temp [OF wf] and rf = resolvePath_final [OF wf]
    and ne = temp_not_final [OF wf, of q]
  have ne': "finalFilePath q \<noteq> tempFilePath q" using ne by simp
  show "fst (upload L q s) =
           Finished (Uploaded (uuid q) (finalFilePath q) (length (parseData (papaParse L bytes)))
             (sha256 L bytes))"
    using b nx fresh pe va cp tv fv ne ne'
    by (simp add: upload_def calculateFileHash_def checkDuplicate_def copyFileSync_def
        publishBatchCreated_def read_write read_unlink exists_read rt rf)
  show "readFileSync (files (snd (upload L q s))) (finalFilePath q) = Some bytes"
    using b nx fresh pe va cp tv fv ne ne'
    by (simp add: upload_def calculateFileHash_def checkDuplicate_def copyFileSync_def
        publishBatchCreated_def read_write read_unlink exists_read rt rf)
  show "redisKeys (snd (upload L q s)) (''filehash:'' @ sha256 L bytes) = Some ''processed''"
    using b nx fresh pe va cp tv fv ne ne'
    by (simp add: upload_def calculateFileHash_def checkDuplicate_def copyFileSync_def
        publishBatchCreated_def read_write read_unlink exists_read rt rf)
  show "channel (snd (upload L q s)) =
           (if publishSucceeds q
            then channel s @
              [(''arealis:events'',
                \<lparr>ev_type = ''batch.created'', ev_batchId = uuid q,
                 ev_filePath = finalFilePath q, ev_timestamp = publishedAt q\<rparr>)]
            else channel s)"
    using b nx fresh pe va cp tv fv ne ne'
    by (simp add: upload_def calculateFileHash_def checkDuplicate_def copyFileSync_def
        publishBatchCreated_def read_write read_unlink exists_read rt rf)
qed

lemma step_keys_monotone:
  "redisKeys s k = Some v \<Longrightarrow> redisKeys (snd (step L q (st, s))) k = Some v"
  by (cases st)
     (auto simp: checkDuplicate_def publishBatchCreated_def
           split: option.splits validation.splits prod.splits if_splits)

lemma upload_keys_monotone:
  "redisKeys s k = Some v \<Longrightarrow> redisKeys (snd (upload L q s)) k = Some v"
proof -
  have "redisKeys s k = Some v \<Longrightarrow> redisKeys (snd ((step L q ^^ n) (st, s))) k = Some v" for n st
  proof (induction n)
    case 0
    then show ?case by simp
  next
    case (Suc n)
    obtain st' s' where c: "(step L q ^^ n) (st, s) = (st', s')"
      by (cases "(step L q ^^ n) (st, s)")
    show ?case
      using Suc step_keys_monotone [of s' k v L q st'] by (simp add: c)
  qed
  then show "redisKeys s k = Some v \<Longrightarrow> redisKeys (snd (upload L q s)) k = Some v"
    by (simp add: upload_funpow)
qed

lemma run_Nil: "run L qs [] s = (s, replicate (length qs) Arriving)"
  by (simp add: run_def)

lemma run_snoc: "run L qs (schedule @ [i]) s = scheduleStep L qs (run L qs schedule s) i"
  by (simp add: run_def)

lemma run_length: "length (snd (run L qs schedule s)) = length qs"
  by (induction schedule rule: rev_induct) (simp_all add: run_Nil run_snoc scheduleStep_def)

lemma run_keys_monotone:
  "redisKeys s k = Some v \<Longrightarrow> redisKeys (fst (run L qs schedule s)) k = Some v"
proof (induction schedule rule: rev_induct)
  case Nil
  then show ?case by (simp add: run_Nil)
next
  case (snoc i schedule)
  then show ?case
    using step_keys_monotone [of "fst (run L qs schedule s)" k v L "qs ! i"
        "snd (run L qs schedule s) ! i"]
    by (simp add: run_snoc scheduleStep_def)
qed

lemma upload_invalid_claims:
  assumes "uploadedBytes q = Some bytes"
    and "fst (upload L q s) = Finished (ValidationFailed e) \<or>
         fst (upload L q s) = Finished (ParsingFailed es)"
  shows "redisKeys (snd (upload L q s)) (''filehash:'' @ sha256 L bytes) \<noteq> None"
  using assms
  by (auto simp: upload_def calculateFileHash_def checkDuplicate_def read_write_same
      split: option.splits validation.splits prod.splits if_splits)

lemma upload_duplicate:
  assumes "uploadedBytes q = Some bytes" and "wfRequest q" and "setNXSucceeds q"
    and "redisKeys s (''filehash:'' @ sha256 L bytes) \<noteq> None"
  shows "fst (upload L q s) = Finished (DuplicateFile (sha256 L bytes))"
  using assms temp_valid [of q]
  by (auto simp: upload_def calculateFileHash_def checkDuplicate_def read_write_same)

lemma upload_never_readmitted:
  assumes "uploadedBytes q = Some bytes"
    and "redisKeys s (''filehash:'' @ sha256 L bytes) \<noteq> None"
  shows "\<not> admitted (fst (upload L q s))"
  using assms
  by (auto simp: upload_def calculateFileHash_def checkDuplicate_def read_write_same
      split: option.splits validation.splits prod.splits if_splits)

subsection \<open>Facts about the closed examples\<close>

lemmas eval_fs =
  path_join_def normalize_def resolvePath_def lookupFile_def existsSync_def readFileSync_def
  statSync_def writeFile_def copyFileSync_def unlinkSync_def

lemmas eval_upload =
  upload_def tempFilePath_def finalFilePath_def calculateFileHash_def checkDuplicate_def
  publishBatchCreated_def exampleRequest_def

lemma example_sha256: "sha256 exampleLibrary bytes = bytes"
  by (simp add: exampleLibrary_def)

lemma example_parse_incomplete:
  "papaParse exampleLibrary incompleteBytes =
     \<lparr>parseErrors = [], parseData = [[(''transactionId'', ''T1''), (''amount'', ''5'')]]\<rparr>"
  by (simp add: exampleLibrary_def unquotedParse_def unquotedRecords_def incompleteBytes_def
      trim_def isWhiteSpace_def)

lemma example_validate_incomplete:
  "validateCSVSchema [[(''transactionId'', ''T1''), (''amount'', ''5'')]] =
     Invalid ''Missing required fields: fromAccount, toAccount, paymentMethod, timestamp''"
  by (simp add: eval_validate)

lemma example_parse_complete:
  "papaParse exampleLibrary completeBytes =
     \<lparr>parseErrors = [],
      parseData = [[(''transactionId'', ''T1''), (''amount'', ''5''), (''fromAccount'', ''A''),
                    (''toAccount'', ''B''), (''paymentMethod'', ''UPI''),
                    (''timestamp'', ''2024'')]]\<rparr>"
  by (simp add: exampleLibrary_def unquotedParse_def unquotedRecords_def completeBytes_def
      trim_def isWhiteSpace_def)

lemma example_validate_complete:
  "validateCSVSchema [[(''transactionId'', ''T1''), (''amount'', ''5''), (''fromAccount'', ''A''),
                    (''toAccount'', ''B''), (''paymentMethod'', ''UPI''),
                    (''timestamp'', ''2024'')]] = Valid"
  by (simp add: eval_validate)

lemma example_wf: "wfRequest (exampleRequest bytes ''1-1'' ''b1'')"
  "wfRequest (exampleRequest bytes ''2-2'' ''b2'')"
  by (simp_all add: wfRequest_def exampleRequest_def)

lemma example_bytes_distinct: "incompleteBytes \<noteq> ''old''" "completeBytes \<noteq> ''old''"
  by (simp_all add: incompleteBytes_def completeBytes_def)

lemma example_upload_incomplete:
  "fst (upload exampleLibrary (exampleRequest incompleteBytes ''1-1'' ''b1'') seededSystem) =
     Finished (ValidationFailed
       ''Missing required fields: fromAccount, toAccount, paymentMethod, timestamp'')"
  by (simp add: eval_upload eval_fs seededSystem_def example_sha256 example_parse_incomplete
      example_validate_incomplete example_bytes_distinct)

subsection \<open>Requests run interleaved\<close>

lemma step_keeps_final:
  assumes "wfRequest q" and "wfRequest q'"
    and "existsSync (files s) (finalFilePath q')"
  shows "existsSync (files (snd (step L q (st, s)))) (finalFilePath q')"
proof -
  have ne: "resolvePath (finalFilePath q') \<noteq> resolvePath (tempFilePath q)"
    using temp_not_final [OF assms(1), of q']
    by (simp add: resolvePath_temp [OF assms(1)] resolvePath_final [OF assms(2)])
  show ?thesis
    using assms(3) ne final_valid [of q']
    by (cases st)
       (auto simp: exists_read read_write read_unlink copyFileSync_def publishBatchCreated_def
             split: option.splits validation.splits prod.splits if_splits)
qed

lemma step_stored:
  assumes "fst (step L q (st, s)) = Stored h n"
  shows "existsSync (files (snd (step L q (st, s)))) (finalFilePath q)"
  using assms final_valid [of q]
  by (cases st)
     (auto simp: exists_read read_write copyFileSync_def
           split: option.splits validation.splits prod.splits if_splits)

lemma step_channel:
  "channel (snd (step L q (st, s))) = channel s \<or>
   ((\<exists>h n. st = Stored h n) \<and> files (snd (step L q (st, s))) = files s \<and>
    (\<exists>e. channel (snd (step L q (st, s))) = channel s @ [(''arealis:events'', e)] \<and>
         ev_filePath e = finalFilePath q))"
  by (cases st)
     (auto simp: publishBatchCreated_def
           split: option.splits validation.splits prod.splits if_splits)

lemma published_same: "channel s' = channel s \<Longrightarrow> published s0 s' = published s0 s"
  by (simp add: published_def)

lemma published_snoc:
  "take (length (channel s0)) (channel s) = channel s0 \<Longrightarrow> channel s' = channel s @ [(c, e)] \<Longrightarrow>
   published s0 s' = published s0 s @ [e]"
proof -
  assume a: "take (length (channel s0)) (channel s) = channel s0" and b: "channel s' = channel s @ [(c, e)]"
  have "length (channel s0) \<le> length (channel s)"
    using a by (metis length_take min.cobounded1)
  then show ?thesis
    using b by (simp add: published_def)
qed

lemma storedInvariant_init:
  "storedInvariant qs s (s, replicate (length qs) Arriving)"
  by (simp add: storedInvariant_def published_def)

lemma storedInvariant_step:
  assumes wf: "\<forall>q\<in>set qs. wfRequest q"
    and inv: "storedInvariant qs s0 c"
  shows "storedInvariant qs s0 (scheduleStep L qs c i)"
proof (cases "i < length qs")
  case False
  then show ?thesis using inv by (simp add: scheduleStep_def)
next
  case True
  obtain s stages where c: "c = (s, stages)" by (cases c)
  have len: "length stages = length qs"
    using inv by (simp add: storedInvariant_def c)
  define q where "q = qs ! i"
  define st' where "st' = fst (step L q (stages ! i, s))"
  define s' where "s' = snd (step L q (stages ! i, s))"
  have wq: "wfRequest q" using wf True by (simp add: q_def)
  have next_c: "scheduleStep L qs c i = (s', stages[i := st'])"
    using True len by (simp add: scheduleStep_def c q_def st'_def s'_def)
  have keep: "existsSync (files s') (finalFilePath q')"
    if "q' \<in> set qs" "existsSync (files s) (finalFilePath q')" for q'
    using step_keeps_final [OF wq _ that(2)] wf that(1) by (simp add: s'_def)
  have stored: "existsSync (files s') (finalFilePath (qs ! j))"
    if j: "j < length qs" and sj: "(stages[i := st']) ! j = Stored h n" for j h n
  proof (cases "j = i")
    case True
    then show ?thesis
      using sj j len step_stored [of L q "stages ! i" s h n]
      by (simp add: st'_def s'_def q_def)
  next
    case False
    then have "stages ! j = Stored h n" using sj by simp
    then have "existsSync (files s) (finalFilePath (qs ! j))"
      using inv j by (simp add: storedInvariant_def c)
    then show ?thesis using keep j by simp
  qed
  have old: "\<forall>e\<in>set (published s0 s).
         existsSync (files s) (ev_filePath e) \<and> (\<exists>q\<in>set qs. ev_filePath e = finalFilePath q)"
    and pre: "take (length (channel s0)) (channel s) = channel s0"
    using inv by (simp_all add: storedInvariant_def c)
  have old': "existsSync (files s') (ev_filePath e) \<and> (\<exists>q\<in>set qs. ev_filePath e = finalFilePath q)"
    if "e \<in> set (published s0 s)" for e
    using old that keep by auto
  consider (same) "channel s' = channel s"
    | (pub) h n e where "stages ! i = Stored h n" "files s' = files s"
        "channel s' = channel s @ [(''arealis:events'', e)]" "ev_filePath e = finalFilePath q"
    using step_channel [of L q "stages ! i" s] by (auto simp: s'_def)
  then have chan: "take (length (channel s0)) (channel s') = channel s0 \<and>
      (\<forall>e\<in>set (published s0 s').
         existsSync (files s') (ev_filePath e) \<and> (\<exists>q\<in>set qs. ev_filePath e = finalFilePath q))"
  proof cases
    case same
    then show ?thesis
      using pre old' by (simp add: published_same [OF same])
  next
    case pub
    have "existsSync (files s) (finalFilePath q)"
      using inv True pub(1) by (simp add: storedInvariant_def c q_def)
    then have new: "existsSync (files s') (ev_filePath e) \<and> (\<exists>q\<in>set qs. ev_filePath e = finalFilePath q)"
      using pub(2,4) True by (auto simp: q_def)
    have "length (channel s0) \<le> length (channel s)"
      using pre by (metis length_take min.cobounded1)
    then have "take (length (channel s0)) (channel s') = channel s0"
      using pre pub(3) by simp
    then show ?thesis
      using old' new by (auto simp: published_snoc [OF pre pub(3)])
  qed
  show ?thesis
    unfolding next_c storedInvariant_def
    using len stored chan by simp
qed

lemma storedInvariant_run:
  assumes "\<forall>q\<in>set qs. wfRequest q"
  shows "storedInvariant qs s (run L qs schedule s)"
proof (induction schedule rule: rev_induct)
  case Nil
  show ?case by (simp add: run_Nil storedInvariant_init)
next
  case (snoc i schedule)
  then show ?case
    by (simp add: run_snoc storedInvariant_step [OF assms])
qed

lemma holdsClaim_Finished [simp]: "holdsClaim (Finished r) = holdsClaim (Responded r)"
  by (cases r) simp_all

lemma stageHash_Finished [simp]: "stageHash (Finished r) = stageHash (Responded r)"
  by (cases r) simp_all








lemma step_other_temp:
  assumes wf: "wfRequest q" and wf': "wfRequest q'"
    and ne: "uniqueSuffix q \<noteq> uniqueSuffix q'"
  shows "readFileSync (files (snd (step L q' (st, s)))) (tempFilePath q) =
         readFileSync (files s) (tempFilePath q)"
proof -
  have n1: "resolvePath (tempFilePath q) \<noteq> resolvePath (tempFilePath q')"
    using temp_inject [OF wf wf'] ne
    by (auto simp: resolvePath_temp [OF wf] resolvePath_temp [OF wf'])
  have n2: "resolvePath (tempFilePath q) \<noteq> resolvePath (finalFilePath q')"
    using temp_not_final [OF wf, of q']
    by (simp add: resolvePath_temp [OF wf] resolvePath_final [OF wf'])
  show ?thesis
    using n1 n2
    by (cases st)
       (auto simp: read_write read_unlink copyFileSync_def publishBatchCreated_def
             split: option.splits validation.splits prod.splits if_splits)
qed









lemma expectedStage_Finished [simp]:
  "expectedStage L q bytes (Finished r) = expectedStage L q bytes (Responded r)"
  by simp

lemma wonClaim_Finished [simp]: "wonClaim (Finished r) = wonClaim (Responded r)"
  by (cases r) simp_all

lemma pastValidation_Finished [simp]: "pastValidation (Finished r) = pastValidation (Responded r)"
  by (cases r) simp_all

lemma winnerResponse_won [simp]: "wonClaim (Responded (winnerResponse L q bytes))"
  by (simp add: winnerResponse_def split: validation.split)

lemma winnerResponse_not_duplicate [simp]: "winnerResponse L q bytes \<noteq> DuplicateFile h"
  by (simp add: winnerResponse_def split: validation.split)











lemma scheduleStep_remaining:
  assumes "length (snd c) = length qs" and "j < length qs"
  shows "remainingSteps (snd (scheduleStep L qs c i) ! j) \<le>
         remainingSteps (snd c ! j) - (if i = j then 1 else 0)"
proof (cases "i = j")
  case True
  then show ?thesis
    using assms step_remaining [of L "qs ! j" "snd c ! j" "fst c"]
    by (simp add: scheduleStep_def)
next
  case False
  then show ?thesis using assms by (simp add: scheduleStep_def)
qed

lemma run_progress:
  "j < length qs \<Longrightarrow>
   remainingSteps (snd (run L qs schedule s) ! j) \<le> 8 - count_list schedule j"
proof (induction schedule rule: rev_induct)
  case Nil
  then show ?case by (simp add: run_Nil)
next
  case (snoc i schedule)
  have "remainingSteps (snd (run L qs (schedule @ [i]) s) ! j) \<le>
        remainingSteps (snd (run L qs schedule s) ! j) - (if i = j then 1 else 0)"
    unfolding run_snoc using run_length snoc.prems by (rule scheduleStep_remaining)
  then show ?case using snoc by auto
qed

lemma run_finishes:
  "j < length qs \<Longrightarrow> 8 \<le> count_list schedule j \<Longrightarrow>
   \<exists>r. snd (run L qs schedule s) ! j = Finished r"
  using run_progress [of j qs L schedule s] by (simp add: remaining_zero)












lemma tempFileInvariant_step:
  assumes wf: "\<forall>q\<in>set qs. wfRequest q" and dist: "distinct (map uniqueSuffix qs)"
    and inv: "tempFileInvariant qs c"
  shows "tempFileInvariant qs (scheduleStep L qs c i)"
proof (cases "i < length qs")
  case False
  then show ?thesis using inv by (simp add: scheduleStep_def)
next
  case True
  obtain s stages where c: "c = (s, stages)" by (cases c)
  have len: "length stages = length qs"
    and clean: "\<And>j. j < length qs \<Longrightarrow> uploadedBytes (qs ! j) \<noteq> None \<Longrightarrow> finished (stages ! j) \<Longrightarrow>
        \<not> existsSync (files s) (tempFilePath (qs ! j))"
    using inv by (auto simp: tempFileInvariant_def c)
  define q where "q = qs ! i"
  define st' where "st' = fst (step L q (stages ! i, s))"
  define s' where "s' = snd (step L q (stages ! i, s))"
  have next_c: "scheduleStep L qs c i = (s', stages[i := st'])"
    using True len by (simp add: scheduleStep_def c q_def st'_def s'_def)
  have clean': "\<not> existsSync (files s') (tempFilePath (qs ! j))"
    if j: "j < length qs" and b: "uploadedBytes (qs ! j) \<noteq> None"
      and f: "finished ((stages[i := st']) ! j)" for j
  proof (cases "j = i")
    case True
    have "finished st' \<longrightarrow> \<not> existsSync (files s') (tempFilePath q)"
      unfolding st'_def s'_def
      using b True clean [OF \<open>i < length qs\<close>]
      by (intro step_finished_clean) (auto simp: q_def)
    then show ?thesis using f True j len by (simp add: q_def)
  next
    case False
    have "uniqueSuffix (qs ! j) \<noteq> uniqueSuffix (qs ! i)"
      using dist j \<open>i < length qs\<close> False by (simp add: distinct_conv_nth)
    then have "readFileSync (files s') (tempFilePath (qs ! j)) =
        readFileSync (files s) (tempFilePath (qs ! j))"
      unfolding s'_def q_def
      using wf j \<open>i < length qs\<close> by (intro step_other_temp) simp_all
    then show ?thesis using clean [OF j b] f False by (simp add: exists_read)
  qed
  show ?thesis
    unfolding next_c tempFileInvariant_def
    using len clean' by simp
qed

lemma tempFileInvariant_run:
  assumes "\<forall>q\<in>set qs. wfRequest q" and "distinct (map uniqueSuffix qs)"
  shows "tempFileInvariant qs (run L qs schedule s)"
proof (induction schedule rule: rev_induct)
  case Nil
  show ?case by (simp add: run_Nil tempFileInvariant_def)
next
  case (snoc i schedule)
  then show ?case by (simp add: run_snoc tempFileInvariant_step [OF assms])
qed

lemma run_alone:
  "run L [q] [0, 0, 0, 0, 0, 0, 0, 0] s = (snd (upload L q s), [fst (upload L q s)])"
  by (simp add: run_def scheduleStep_def upload_def)



section \<open>Properties of the evidence service and of the batch status lookup\<close>

lemma includes_empty: "includes_str s [] = True"
  by (cases s) simp_all

lemma join_evidence_entry:
  assumes "isEntryName n"
  shows "path_join EVIDENCE_DIR n = EVIDENCE_DIR @ ''/'' @ n"
proof -
  have n: "n \<noteq> []" "CHR ''/'' \<notin> set n" "n \<noteq> ''.''" "n \<noteq> ''..''"
    using assms by (simp_all add: isEntryName_def)
  have s: "splitOn CHR ''/'' n = [n]"
    using n(2) by (rule splitOn_no_sep)
  have l: "last n \<noteq> CHR ''/''"
    using n(1,2) last_in_set by metis
  show ?thesis
    using n l by (simp add: path_join_def normalize_def EVIDENCE_DIR_def s)
qed

lemma basename_evidence_entry:
  assumes "isEntryName n"
  shows "basename (path_join EVIDENCE_DIR n) = n"
proof -
  have n: "n \<noteq> []" "CHR ''/'' \<notin> set n"
    using assms by (simp_all add: isEntryName_def)
  have s: "splitOn CHR ''/'' n = [n]"
    using n(2) by (rule splitOn_no_sep)
  show ?thesis
    unfolding join_evidence_entry [OF assms]
    using n by (simp add: basename_def EVIDENCE_DIR_def s)
qed

lemma readdir_names: "n \<in> set (readdirSync fs dir) \<Longrightarrow> isEntryName n"
  by (simp add: readdirSync_def)

lemma entry_filename: "isEntryName n \<Longrightarrow> ls_filename (fileEntry port digest fs n) = n"
  by (simp add: fileEntry_def getFileMetadata_def Let_def basename_evidence_entry
      split: option.split)

lemmas eval_paths = path_join_def normalize_def resolvePath_def EVIDENCE_DIR_def
lemmas eval_fs0 = lookupFile_def existsSync_def readFileSync_def statSync_def

lemma example_readdir: "readdirSync siblingFs EVIDENCE_DIR = [''Report.CSV'', ''notes.txt'']"
  by (simp add: readdirSync_def siblingFs_def EVIDENCE_DIR_def isEntryName_def)

lemma example_lower: "toLowerCase ''Report.CSV'' = ''report.csv''" "toLowerCase ''notes.txt'' = ''notes.txt''"
  "toLowerCase ''csv'' = ''csv''"
  by (simp_all add: toLowerCase_def toLowerChar_def upperCaseLetters_def lowerCaseLetters_def)

lemma batchStatus_found:
  "lookupFile fs (''/app/data/processed/'' @ batchId @ ''.csv'') = Some f \<Longrightarrow>
   batchStatus fs batchId =
     BatchProcessed batchId (''/app/data/processed/'' @ batchId @ ''.csv'')
       (length (content f)) (birthtime f) (mtime f)"
  by (simp add: batchStatus_def existsSync_def statSync_def Let_def)

section \<open>The handler, the ledger and the evidence store against the specification\<close>

text \<open>
  Claim C10. For every upload request in which a file was received, whatever the library,
  the request and the state of the shared resources, the handler returns (it reaches
  \<open>Finished\<close> with some response: success, duplicate, validation failure, parse failure
  or internal error) and the temporary file does not exist when it has returned. The same
  holds when requests run interleaved: a request that is given its eight steps returns,
  and the temporary file of every request that has returned does not exist.
\<close>

theorem temp_file_removed:
  "(uploadedBytes q \<noteq> None \<longrightarrow>
      (\<exists>r. fst (upload L q s) = Finished r) \<and>
      \<not> existsSync (files (snd (upload L q s))) (tempFilePath q)) \<and>
   (i < length qs \<and> 8 \<le> count_list schedule i \<longrightarrow>
      (\<exists>r. snd (run L qs schedule s) ! i = Finished r)) \<and>
   ((\<forall>q\<in>set qs. wfRequest q) \<and> distinct (map uniqueSuffix qs) \<longrightarrow>
      (\<forall>i<length qs.
         uploadedBytes (qs ! i) \<noteq> None \<and> finished (snd (run L qs schedule s) ! i) \<longrightarrow>
         \<not> existsSync (files (fst (run L qs schedule s))) (tempFilePath (qs ! i))))"
proof (intro conjI impI)
  assume a: "uploadedBytes q \<noteq> None"
  obtain r where r: "fst (upload L q s) = Finished r"
    using upload_finishes by blast
  then have "finished (fst ((step L q ^^ 8) (Arriving, s)))"
    by (simp add: upload_funpow)
  then have "\<not> existsSync (files (snd (upload L q s))) (tempFilePath q)"
    using funpow_step_clean [OF a, where k = 8 and L = L and s = s] by (simp add: upload_funpow)
  then show "\<exists>r. fst (upload L q s) = Finished r"
    and "\<not> existsSync (files (snd (upload L q s))) (tempFilePath q)"
    using r by blast+
next
  assume "i < length qs \<and> 8 \<le> count_list schedule i"
  then show "\<exists>r. snd (run L qs schedule s) ! i = Finished r"
    by (simp add: run_finishes)
next
  assume "(\<forall>q\<in>set qs. wfRequest q) \<and> distinct (map uniqueSuffix qs)"
  then have "tempFileInvariant qs (run L qs schedule s)"
    by (simp add: tempFileInvariant_run)
  then show "\<forall>i<length qs.
         uploadedBytes (qs ! i) \<noteq> None \<and> finished (snd (run L qs schedule s) ! i) \<longrightarrow>
         \<not> existsSync (files (fst (run L qs schedule s))) (tempFilePath (qs ! i))"
    by (simp add: tempFileInvariant_def)
qed

theorem temp_file_removed_witness:
  "(\<exists>r. fst (upload exampleLibrary (exampleRequest incompleteBytes ''1-1'' ''b1'') seededSystem) =
      Finished r) \<and>
   \<not> existsSync
       (files (snd (upload exampleLibrary (exampleRequest incompleteBytes ''1-1'' ''b1'')
         seededSystem)))
       (tempFilePath (exampleRequest incompleteBytes ''1-1'' ''b1'')) \<and>
   (\<exists>r. snd (run exampleLibrary
             [exampleRequest completeBytes ''1-1'' ''b1'', exampleRequest completeBytes ''2-2'' ''b2'']
             [0, 1, 0, 1, 1, 0, 0, 1, 0, 1, 1, 0, 0, 1, 0, 1] seededSystem) ! 1 = Finished r) \<and>
   \<not> existsSync
       (files (fst (run exampleLibrary
             [exampleRequest completeBytes ''1-1'' ''b1'', exampleRequest completeBytes ''2-2'' ''b2'']
             [0, 1, 0, 1, 1, 0, 0, 1, 0, 1, 1, 0, 0, 1, 0, 1] seededSystem)))
       (tempFilePath (exampleRequest completeBytes ''2-2'' ''b2''))"
proof -
  define qs where "qs = [exampleRequest completeBytes ''1-1'' ''b1'',
    exampleRequest completeBytes ''2-2'' ''b2'']"
  define schedule :: "nat list" where "schedule = [0, 1, 0, 1, 1, 0, 0, 1, 0, 1, 1, 0, 0, 1, 0, 1]"
  have h1: "\<forall>q\<in>set qs. wfRequest q" "distinct (map uniqueSuffix qs)" "length qs = 2"
    "qs ! 1 = exampleRequest completeBytes ''2-2'' ''b2''"
    by (simp_all add: qs_def wfRequest_def exampleRequest_def)
  have h2: "8 \<le> count_list schedule 1"
    by (simp add: schedule_def)
  have h3: "uploadedBytes (exampleRequest bytes sfx b) \<noteq> None" for bytes sfx b
    by (simp add: exampleRequest_def)
  have fin: "\<exists>r. snd (run exampleLibrary qs schedule seededSystem) ! 1 = Finished r"
    using h1(3) h2
      temp_file_removed [where i = 1 and qs = qs and schedule = schedule
        and L = exampleLibrary and s = seededSystem
        and q = "exampleRequest incompleteBytes ''1-1'' ''b1''"]
    by simp
  then have f: "finished (snd (run exampleLibrary qs schedule seededSystem) ! 1)"
    by auto
  have seq: "(\<exists>r. fst (upload exampleLibrary (exampleRequest incompleteBytes ''1-1'' ''b1'')
        seededSystem) = Finished r) \<and>
      \<not> existsSync
        (files (snd (upload exampleLibrary (exampleRequest incompleteBytes ''1-1'' ''b1'')
          seededSystem)))
        (tempFilePath (exampleRequest incompleteBytes ''1-1'' ''b1''))"
    and par: "\<forall>i<length qs.
        uploadedBytes (qs ! i) \<noteq> None \<and>
        finished (snd (run exampleLibrary qs schedule seededSystem) ! i) \<longrightarrow>
        \<not> existsSync (files (fst (run exampleLibrary qs schedule seededSystem)))
            (tempFilePath (qs ! i))"
    using h1(1,2) h3
      temp_file_removed [where i = 1 and qs = qs and schedule = schedule
        and L = exampleLibrary and s = seededSystem
        and q = "exampleRequest incompleteBytes ''1-1'' ''b1''"]
    by simp_all
  have "\<not> existsSync (files (fst (run exampleLibrary qs schedule seededSystem)))
            (tempFilePath (qs ! 1))"
    using par h1(3,4) h3 f by (metis one_less_numeral_iff semiring_norm(76))
  then show ?thesis
    using seq fin h1(4)
    unfolding qs_def [symmetric] schedule_def [symmetric]
    by simp
qed

text \<open>
  Claim C4. The ledger is append-only: a key that is set stays set, with its value, over
  every step of the handler, over every request run alone and over every interleaved run of
  any requests. An upload that wins the claim and then fails validation leaves the claim in
  place, so after it, and after whatever other requests run in between, a later upload of
  the same bytes is never admitted, and when its claim call is answered it ends with the
  duplicate response carrying the digest.
\<close>

theorem ledger_append_only:
  "(redisKeys s k = Some v \<longrightarrow>
      redisKeys (snd (step L q (st, s))) k = Some v \<and>
      redisKeys (snd (upload L q s)) k = Some v \<and>
      redisKeys (fst (run L qs schedule s)) k = Some v) \<and>
   (uploadedBytes q1 = Some bytes \<and> fst (upload L q1 s) = Finished (ValidationFailed e) \<and>
    uploadedBytes q2 = Some bytes \<longrightarrow>
      \<not> admitted (fst (upload L q2 (fst (run L qs schedule (snd (upload L q1 s)))))) \<and>
      (wfRequest q2 \<and> setNXSucceeds q2 \<longrightarrow>
         fst (upload L q2 (fst (run L qs schedule (snd (upload L q1 s))))) =
           Finished (DuplicateFile (sha256 L bytes))))"
proof (intro conjI impI)
  assume "redisKeys s k = Some v"
  then show "redisKeys (snd (step L q (st, s))) k = Some v"
    and "redisKeys (snd (upload L q s)) k = Some v"
    and "redisKeys (fst (run L qs schedule s)) k = Some v"
    by (rule step_keys_monotone upload_keys_monotone run_keys_monotone)+
next
  assume a: "uploadedBytes q1 = Some bytes \<and> fst (upload L q1 s) = Finished (ValidationFailed e) \<and>
    uploadedBytes q2 = Some bytes"
  then have "redisKeys (snd (upload L q1 s)) (''filehash:'' @ sha256 L bytes) \<noteq> None"
    using upload_invalid_claims [of q1 bytes L s e] by simp
  then obtain v' where "redisKeys (snd (upload L q1 s)) (''filehash:'' @ sha256 L bytes) = Some v'"
    by blast
  then have claimed: "redisKeys (fst (run L qs schedule (snd (upload L q1 s))))
      (''filehash:'' @ sha256 L bytes) \<noteq> None"
    using run_keys_monotone by simp
  show "\<not> admitted (fst (upload L q2 (fst (run L qs schedule (snd (upload L q1 s))))))"
    using a claimed by (intro upload_never_readmitted) simp_all
  show "fst (upload L q2 (fst (run L qs schedule (snd (upload L q1 s))))) =
        Finished (DuplicateFile (sha256 L bytes))"
    if "wfRequest q2 \<and> setNXSucceeds q2"
    using a that claimed upload_duplicate by simp
qed

theorem ledger_append_only_witness:
  "redisKeys seededSystem ''filehash:old'' = Some ''processed'' \<and>
   redisKeys (snd (upload exampleLibrary (exampleRequest incompleteBytes ''1-1'' ''b1'')
     seededSystem)) ''filehash:old'' = Some ''processed'' \<and>
   fst (upload exampleLibrary (exampleRequest incompleteBytes ''1-1'' ''b1'') seededSystem) =
     Finished (ValidationFailed
       ''Missing required fields: fromAccount, toAccount, paymentMethod, timestamp'') \<and>
   fst (upload exampleLibrary (exampleRequest incompleteBytes ''2-2'' ''b2'')
     (fst (run exampleLibrary [exampleRequest completeBytes ''3-3'' ''b3'']
       [0, 0, 0, 0, 0, 0, 0, 0]
       (snd (upload exampleLibrary (exampleRequest incompleteBytes ''1-1'' ''b1'')
         seededSystem))))) =
     Finished (DuplicateFile incompleteBytes)"
proof -
  have k: "redisKeys seededSystem ''filehash:old'' = Some ''processed''"
    by (simp add: seededSystem_def)
  have b: "uploadedBytes (exampleRequest incompleteBytes ''1-1'' ''b1'') = Some incompleteBytes"
    "uploadedBytes (exampleRequest incompleteBytes ''2-2'' ''b2'') = Some incompleteBytes"
    "setNXSucceeds (exampleRequest incompleteBytes ''2-2'' ''b2'')"
    by (simp_all add: exampleRequest_def)
  show ?thesis
    using k b example_wf(2) [of incompleteBytes] example_upload_incomplete
      ledger_append_only [where s = seededSystem and k = "''filehash:old''" and v = "''processed''"
        and L = exampleLibrary and q = "exampleRequest incompleteBytes ''1-1'' ''b1''"
        and ?q1.0 = "exampleRequest incompleteBytes ''1-1'' ''b1''"
        and ?q2.0 = "exampleRequest incompleteBytes ''2-2'' ''b2''"
        and bytes = incompleteBytes and qs = "[exampleRequest completeBytes ''3-3'' ''b3'']"
        and schedule = "[0, 0, 0, 0, 0, 0, 0, 0]"
        and e = "''Missing required fields: fromAccount, toAccount, paymentMethod, timestamp''"]
    by (simp add: example_sha256)
qed

text \<open>
  Claim C6. When the publish fails after the artifact is stored, the batch stays: the
  handler still answers with the success response carrying the assigned batch identifier,
  the artifact is in storage under its final path with the uploaded bytes, and nothing is
  published.
\<close>

theorem publish_failure_keeps_batch:
  "uploadedBytes q = Some bytes \<and> wfRequest q \<and> setNXSucceeds q \<and>
   redisKeys s (''filehash:'' @ sha256 L bytes) = None \<and>
   parseErrors (papaParse L bytes) = [] \<and>
   validateCSVSchema (parseData (papaParse L bytes)) = Valid \<and>
   copySucceeds q \<and> \<not> publishSucceeds q \<longrightarrow>
     fst (upload L q s) =
       Finished (Uploaded (uuid q) (finalFilePath q) (length (parseData (papaParse L bytes)))
         (sha256 L bytes)) \<and>
     readFileSync (files (snd (upload L q s))) (finalFilePath q) = Some bytes \<and>
     channel (snd (upload L q s)) = channel s"
  using upload_success_path [of q bytes s L] by simp

theorem publish_failure_keeps_batch_witness:
  "fst (upload exampleLibrary
         ((exampleRequest completeBytes ''1-1'' ''b1'')\<lparr>publishSucceeds := False\<rparr>) emptySystem) =
     Finished (Uploaded ''b1'' ''/app/data/processed/b1.csv'' 1 completeBytes) \<and>
   readFileSync (files (snd (upload exampleLibrary
         ((exampleRequest completeBytes ''1-1'' ''b1'')\<lparr>publishSucceeds := False\<rparr>) emptySystem)))
     ''/app/data/processed/b1.csv'' = Some completeBytes \<and>
   channel (snd (upload exampleLibrary
         ((exampleRequest completeBytes ''1-1'' ''b1'')\<lparr>publishSucceeds := False\<rparr>) emptySystem)) = []"
proof -
  have h: "wfRequest ((exampleRequest completeBytes ''1-1'' ''b1'')\<lparr>publishSucceeds := False\<rparr>)"
    by (simp add: wfRequest_def exampleRequest_def)
  have f: "redisKeys emptySystem (''filehash:'' @ sha256 exampleLibrary completeBytes) = None"
    by (simp add: emptySystem_def)
  show ?thesis
    using h f
      publish_failure_keeps_batch [of
        "(exampleRequest completeBytes ''1-1'' ''b1'')\<lparr>publishSucceeds := False\<rparr>"
        completeBytes emptySystem exampleLibrary]
    by (simp add: example_parse_complete example_validate_complete example_sha256
        exampleRequest_def finalFilePath_def emptySystem_def)
qed

text \<open>
  Claim C7. For every pattern, the search returns exactly the entries of the listing
  whose file name, in lower case, contains the pattern, in lower case, as a substring, in
  the order of the listing; with the empty pattern it returns the whole listing. The
  statement is about the two handlers: which requests reach them is the router's matter.
\<close>

theorem search_filters_listing:
  "searchFiles port digest fs pattern =
     filter (\<lambda>e. includes_str (toLowerCase (ls_filename e)) (toLowerCase pattern))
       (listFiles port digest fs) \<and>
   searchFiles port digest fs [] = listFiles port digest fs"
proof
  have "filter (\<lambda>e. includes_str (toLowerCase (ls_filename e)) (toLowerCase pattern))
          (map (fileEntry port digest fs) (readdirSync fs EVIDENCE_DIR)) =
        map (fileEntry port digest fs)
          (filter (\<lambda>n. includes_str (toLowerCase (ls_filename (fileEntry port digest fs n)))
                     (toLowerCase pattern)) (readdirSync fs EVIDENCE_DIR))"
    by (simp add: filter_map comp_def)
  also have "\<dots> = map (fileEntry port digest fs)
          (filter (\<lambda>n. includes_str (toLowerCase n) (toLowerCase pattern))
             (readdirSync fs EVIDENCE_DIR))"
    using readdir_names [of _ fs EVIDENCE_DIR]
    by (intro arg_cong [where f = "map (fileEntry port digest fs)"] filter_cong)
       (simp_all add: entry_filename)
  finally show "searchFiles port digest fs pattern =
     filter (\<lambda>e. includes_str (toLowerCase (ls_filename e)) (toLowerCase pattern))
       (listFiles port digest fs)"
    by (simp add: searchFiles_def listFiles_def)
  show "searchFiles port digest fs [] = listFiles port digest fs"
    by (simp add: searchFiles_def listFiles_def toLowerCase_def includes_empty)
qed

theorem search_filters_listing_witness:
  "searchFiles ''8080'' (\<lambda>b. b) siblingFs ''csv'' =
     filter (\<lambda>e. includes_str (toLowerCase (ls_filename e)) (toLowerCase ''csv''))
       (listFiles ''8080'' (\<lambda>b. b) siblingFs) \<and>
   map ls_filename (searchFiles ''8080'' (\<lambda>b. b) siblingFs ''csv'') = [''Report.CSV''] \<and>
   map ls_filename (listFiles ''8080'' (\<lambda>b. b) siblingFs) = [''Report.CSV'', ''notes.txt'']"
proof -
  have "map ls_filename (searchFiles ''8080'' (\<lambda>b. b) siblingFs ''csv'') = [''Report.CSV'']"
    by (simp add: searchFiles_def example_readdir example_lower entry_filename isEntryName_def)
  moreover have "map ls_filename (listFiles ''8080'' (\<lambda>b. b) siblingFs) = [''Report.CSV'', ''notes.txt'']"
    by (simp add: listFiles_def example_readdir entry_filename isEntryName_def)
  ultimately show ?thesis
    using search_filters_listing [of "''8080''" "\<lambda>b. b" siblingFs "''csv''"] by simp
qed

text \<open>
  Claim C2 fails on the code. The handler joins the root and the file name and checks
  that the joined path starts with the root as a string. A file name that climbs out of
  the root into a sibling directory whose name starts with the name of the root passes the
  check: for \<open>../evidence-backup/secret.csv\<close> the joined path is
  \<open>/app/data/evidence-backup/secret.csv\<close>, which is not inside the root, and the handler
  answers with the bytes of that file instead of the invalid-path error.
\<close>

theorem getFile_serves_sibling_directory:
  "path_join EVIDENCE_DIR ''../evidence-backup/secret.csv'' = ''/app/data/evidence-backup/secret.csv'' \<and>
   \<not> withinRoot EVIDENCE_DIR (path_join EVIDENCE_DIR ''../evidence-backup/secret.csv'') \<and>
   getFile digest siblingFs ''../evidence-backup/secret.csv'' =
     FileServed
       \<lparr>md_filename = ''secret.csv'', md_size = 6, md_createdAt = 1, md_modifiedAt = 2,
        md_hash = Some (digest ''secret''), md_mimeType = ''text/csv''\<rparr>
       ''secret''"
proof -
  have p: "path_join EVIDENCE_DIR ''../evidence-backup/secret.csv'' = ''/app/data/evidence-backup/secret.csv''"
    by (simp add: eval_paths)
  have w: "\<not> withinRoot EVIDENCE_DIR ''/app/data/evidence-backup/secret.csv''"
    by (simp add: withinRoot_def EVIDENCE_DIR_def)
  have r: "resolvePath ''/app/data/evidence-backup/secret.csv'' = ''/app/data/evidence-backup/secret.csv''"
    by (simp add: resolvePath_def)
  have m: "getMimeType ''/app/data/evidence-backup/secret.csv'' = ''text/csv''"
    by (simp add: getMimeType_def extname_def basename_def toLowerCase_def toLowerChar_def
        upperCaseLetters_def lowerCaseLetters_def)
  have b: "basename ''/app/data/evidence-backup/secret.csv'' = ''secret.csv''"
    by (simp add: basename_def)
  have g: "getFile digest siblingFs ''../evidence-backup/secret.csv'' =
     FileServed
       \<lparr>md_filename = ''secret.csv'', md_size = 6, md_createdAt = 1, md_modifiedAt = 2,
        md_hash = Some (digest ''secret''), md_mimeType = ''text/csv''\<rparr>
       ''secret''"
    unfolding getFile_def p
    by (simp add: getFileMetadata_def eval_fs0 r m b siblingFs_def secretFile_def
        EVIDENCE_DIR_def)
  show ?thesis using p w g by simp
qed

text \<open>
  Claim C9. The batch status lookup puts the caller's batch identifier into the path
  as it is and checks nothing: whatever regular file the path resolves to is reported as a
  processed batch, with its size and timestamps. For the identifier \<open>../secrets/keys\<close> the
  path resolves to \<open>/app/data/secrets/keys.csv\<close>, outside the processed directory, and
  the file there is reported. The evidence read path answers the same traversal, to the
  same file, with the invalid-path error.
\<close>

theorem batchStatus_no_containment:
  "(lookupFile fs (''/app/data/processed/'' @ batchId @ ''.csv'') = Some f \<longrightarrow>
      batchStatus fs batchId =
        BatchProcessed batchId (''/app/data/processed/'' @ batchId @ ''.csv'')
          (length (content f)) (birthtime f) (mtime f)) \<and>
   resolvePath (''/app/data/processed/'' @ ''../secrets/keys'' @ ''.csv'') =
     ''/app/data/secrets/keys.csv'' \<and>
   \<not> withinRoot ''/app/data/processed'' ''/app/data/secrets/keys.csv'' \<and>
   batchStatus secretFs ''../secrets/keys'' =
     BatchProcessed ''../secrets/keys'' ''/app/data/processed/../secrets/keys.csv'' 6 1 2 \<and>
   path_join EVIDENCE_DIR ''../secrets/keys.csv'' = ''/app/data/secrets/keys.csv'' \<and>
   getFile digest secretFs ''../secrets/keys.csv'' = InvalidFilePath"
proof -
  have r: "resolvePath (''/app/data/processed/'' @ ''../secrets/keys'' @ ''.csv'') =
     ''/app/data/secrets/keys.csv''"
    by (simp add: resolvePath_def)
  have w: "\<not> withinRoot ''/app/data/processed'' ''/app/data/secrets/keys.csv''"
    by (simp add: withinRoot_def)
  have l: "lookupFile secretFs (''/app/data/processed/'' @ ''../secrets/keys'' @ ''.csv'') =
     Some secretFile"
    unfolding lookupFile_def r by (simp add: secretFs_def)
  have b: "batchStatus secretFs ''../secrets/keys'' =
     BatchProcessed ''../secrets/keys'' ''/app/data/processed/../secrets/keys.csv'' 6 1 2"
    using batchStatus_found [OF l] by (simp add: secretFile_def)
  have p: "path_join EVIDENCE_DIR ''../secrets/keys.csv'' = ''/app/data/secrets/keys.csv''"
    by (simp add: eval_paths)
  have g: "getFile digest secretFs ''../secrets/keys.csv'' = InvalidFilePath"
    unfolding getFile_def p by (simp add: EVIDENCE_DIR_def)
  show ?thesis
    using r w b p g batchStatus_found [of fs batchId f] by simp
qed

theorem batchStatus_no_containment_witness:
  "lookupFile secretFs (''/app/data/processed/'' @ ''../secrets/keys'' @ ''.csv'') = Some secretFile \<and>
   batchStatus secretFs ''../secrets/keys'' =
     BatchProcessed ''../secrets/keys'' (''/app/data/processed/'' @ ''../secrets/keys'' @ ''.csv'')
       (length (content secretFile)) (birthtime secretFile) (mtime secretFile)"
proof -
  have r: "resolvePath (''/app/data/processed/'' @ ''../secrets/keys'' @ ''.csv'') =
     ''/app/data/secrets/keys.csv''"
    by (simp add: resolvePath_def)
  have l: "lookupFile secretFs (''/app/data/processed/'' @ ''../secrets/keys'' @ ''.csv'') =
     Some secretFile"
    unfolding lookupFile_def r by (simp add: secretFs_def)
  show ?thesis
    using l batchStatus_no_containment [of secretFs "''../secrets/keys''" secretFile "\<lambda>b. b"]
    by simp
qed





text \<open>
  Claim C3. The handler publishes from one position only, \<open>Stored\<close>, which it reaches when
  the copy to the final path has returned. In every run of requests, one after the other
  or interleaved in any schedule, and at every moment of the run, the channel has only
  grown, every notification published during the run refers to a file that is in storage,
  and the artifact of every request at \<open>Stored\<close> is in storage.
\<close>

theorem stored_before_notified:
  "(channel (snd (step L q (st, s))) \<noteq> channel s \<longrightarrow> (\<exists>h n. st = Stored h n)) \<and>
   ((\<forall>q\<in>set qs. wfRequest q) \<longrightarrow>
     take (length (channel s)) (channel (fst (run L qs schedule s))) = channel s \<and>
     (\<forall>e\<in>set (published s (fst (run L qs schedule s))).
        existsSync (files (fst (run L qs schedule s))) (ev_filePath e)) \<and>
     (\<forall>i<length qs. \<forall>h n. snd (run L qs schedule s) ! i = Stored h n \<longrightarrow>
        existsSync (files (fst (run L qs schedule s))) (finalFilePath (qs ! i))))"
proof (intro conjI impI)
  assume "channel (snd (step L q (st, s))) \<noteq> channel s"
  then show "\<exists>h n. st = Stored h n"
    using step_channel [of L q st s] by blast
next
  assume "\<forall>q\<in>set qs. wfRequest q"
  then have inv: "storedInvariant qs s (run L qs schedule s)"
    by (rule storedInvariant_run)
  show "take (length (channel s)) (channel (fst (run L qs schedule s))) = channel s"
    using inv by (simp add: storedInvariant_def)
  show "\<forall>e\<in>set (published s (fst (run L qs schedule s))).
        existsSync (files (fst (run L qs schedule s))) (ev_filePath e)"
    using inv by (simp add: storedInvariant_def)
  show "\<forall>i<length qs. \<forall>h n. snd (run L qs schedule s) ! i = Stored h n \<longrightarrow>
        existsSync (files (fst (run L qs schedule s))) (finalFilePath (qs ! i))"
    using inv by (simp add: storedInvariant_def)
qed

theorem stored_before_notified_witness:
  "published emptySystem
     (fst (run exampleLibrary [exampleRequest completeBytes ''1-1'' ''b1'']
        [0, 0, 0, 0, 0, 0, 0, 0] emptySystem)) =
     [\<lparr>ev_type = ''batch.created'', ev_batchId = ''b1'',
       ev_filePath = ''/app/data/processed/b1.csv'', ev_timestamp = ''t''\<rparr>] \<and>
   existsSync
     (files (fst (run exampleLibrary [exampleRequest completeBytes ''1-1'' ''b1'']
        [0, 0, 0, 0, 0, 0, 0, 0] emptySystem)))
     ''/app/data/processed/b1.csv''"
proof -
  define q where "q = exampleRequest completeBytes ''1-1'' ''b1''"
  have wf: "wfRequest q" unfolding q_def by (rule example_wf)
  have q: "uploadedBytes q = Some completeBytes" "setNXSucceeds q" "copySucceeds q"
    "publishSucceeds q" "uuid q = ''b1''" "publishedAt q = ''t''"
    "finalFilePath q = ''/app/data/processed/b1.csv''"
    by (simp_all add: q_def exampleRequest_def finalFilePath_def)
  have f: "redisKeys emptySystem (''filehash:'' @ sha256 exampleLibrary completeBytes) = None"
    by (simp add: emptySystem_def)
  have pe: "parseErrors (papaParse exampleLibrary completeBytes) = []"
    and va: "validateCSVSchema (parseData (papaParse exampleLibrary completeBytes)) = Valid"
    by (simp_all add: example_parse_complete example_validate_complete)
  have ce: "channel emptySystem = []"
    by (simp add: emptySystem_def)
  have ch: "channel (snd (upload exampleLibrary q emptySystem)) =
      [(''arealis:events'', \<lparr>ev_type = ''batch.created'', ev_batchId = ''b1'',
       ev_filePath = ''/app/data/processed/b1.csv'', ev_timestamp = ''t''\<rparr>)]"
    using upload_success_path(4) [OF q(1) wf q(2) f pe va q(3)] q(4-7) ce
    by simp
  have p: "published emptySystem (fst (run exampleLibrary [q] [0, 0, 0, 0, 0, 0, 0, 0] emptySystem)) =
     [\<lparr>ev_type = ''batch.created'', ev_batchId = ''b1'',
       ev_filePath = ''/app/data/processed/b1.csv'', ev_timestamp = ''t''\<rparr>]"
    using ce by (simp add: run_alone published_def ch)
  have "\<forall>q\<in>set [q]. wfRequest q" using wf by simp
  then show ?thesis
    using p stored_before_notified [of exampleLibrary q Arriving emptySystem "[q]"
        "[0, 0, 0, 0, 0, 0, 0, 0]"]
    unfolding q_def [symmetric] by simp
qed


end
